theory Spec2Isabelle
  imports Main "HOL-Library.Multiset"
begin

section \<open>ChillFeed: a 24-hour feed stored as files of a GitHub repository\<close>

text \<open>
  This theory embeds \<^verbatim>\<open>src/server.js\<close>. The server keeps no state of its own:
  every route reads and writes files of a repository through the GitHub Contents API.
  The embedding therefore passes the repository explicitly, and every route is a
  function from the repository (and the values the route reads from its environment:
  the clock and the random identifier) to a response and the repository afterwards.

  What is represented, and how:
  \<^item> Instants are milliseconds since the epoch, as \<^verbatim>\<open>Date.now()\<close> returns them: an
    \<open>int\<close>. \<^verbatim>\<open>new Date(x).getTime()\<close> is a number or \<^verbatim>\<open>NaN\<close>: an \<open>int option\<close>,
    \<open>None\<close> being \<^verbatim>\<open>NaN\<close>, on which both \<^verbatim>\<open>>=\<close> and \<^verbatim>\<open><\<close> are false.
  \<^item> A stored object is a record of the fields the program reads and writes. The value
    of a field, in a stored object as in the body of a request, is \<^verbatim>\<open>undefined\<close> (the
    field is missing), \<^verbatim>\<open>null\<close> or a string; on these values \<^verbatim>\<open>===\<close> is equality, so
    \<^verbatim>\<open>null\<close> and \<^verbatim>\<open>undefined\<close> are different. Numbers, booleans, arrays and nested
    objects as field values are left out. \<^verbatim>\<open>JSON.stringify\<close> drops the missing fields
    and \<^verbatim>\<open>JSON.parse\<close> leaves them missing.
    The field \<^verbatim>\<open>createdAt\<close> is kept as the instant that \<^verbatim>\<open>new Date(createdAt).getTime()\<close>
    reads from it, so \<^verbatim>\<open>nowISO()\<close> at instant \<open>t\<close> is stored as \<open>Some t\<close>.
  \<^item> The text of a file is kept as what \<^verbatim>\<open>JSON.parse\<close> makes of it: \<open>Json d\<close> when it is
    the JSON of the object \<open>d\<close>, \<open>Malformed\<close> when \<^verbatim>\<open>JSON.parse\<close> throws. So
    \<^verbatim>\<open>JSON.stringify\<close> of \<open>d\<close> is \<open>Json d\<close>. JSON texts that are not objects are left out.
  \<^item> The repository is an in-memory stand-in for the remote service: for each directory
    the list of its entries in listing order, each with a name, a type, a version token
    (\<^verbatim>\<open>sha\<close>) and a content, and a counter from which new tokens are taken.
  \<^item> A thrown exception is a value of \<open>error\<close>; a route answers with \<open>Inl\<close> of the HTTP
    failure (status 400 or 500) or \<open>Inr\<close> of the JSON it sends.
\<close>

subsection \<open>Data\<close>

datatype jsval = Undefined | Null | Str string

record doc =
  doc_id :: "jsval"
  author :: "jsval"
  doc_text :: "jsval"
  imageUrl :: "jsval"
  postId :: "jsval"
  user :: "jsval"
  createdAt :: "int option"

datatype content = Malformed | Json doc

record item =
  name :: string
  type :: string

record entry = item +
  sha :: nat
  content :: content

record repo =
  dirs :: "string \<Rightarrow> entry list"
  next_sha :: nat

datatype error = SyntaxError | TypeError | GitHubPutError nat | GitHubDeleteError nat

datatype failure = Status400 string | Status500 error

record feedpost =
  post :: doc
  likes :: nat
  comments :: "doc list"
  commentCount :: nat

datatype like_response = Duplicate | Created doc

subsection \<open>Configuration and small helpers\<close>

definition BASE_PATH :: string where
  "BASE_PATH = ''data''"

definition TTL_MS :: int where
  "TTL_MS = 24 * 60 * 60 * 1000"

text \<open>\<^verbatim>\<open>`${BASE_PATH}/${folder}`\<close>\<close>

definition folder_path :: "string \<Rightarrow> string" where
  "folder_path folder = BASE_PATH @ ''/'' @ folder"

text \<open>\<^verbatim>\<open>String.prototype.endsWith\<close>\<close>

definition endsWith :: "string \<Rightarrow> string \<Rightarrow> bool" where
  "endsWith s suf = (length suf \<le> length s \<and> drop (length s - length suf) s = suf)"

text \<open>
  The negation of \<^verbatim>\<open>!x\<close> on a field: \<^verbatim>\<open>undefined\<close>, \<^verbatim>\<open>null\<close> and the empty string are
  falsy.
\<close>

definition truthy :: "jsval \<Rightarrow> bool" where
  "truthy x = (case x of Undefined \<Rightarrow> False | Null \<Rightarrow> False | Str s \<Rightarrow> s \<noteq> [])"

text \<open>\<^verbatim>\<open>JSON.parse(content)\<close>, \<open>None\<close> when it throws, and \<^verbatim>\<open>JSON.stringify(obj, null, 2)\<close>.\<close>

definition JSON_parse :: "content \<Rightarrow> doc option" where
  "JSON_parse c = (case c of Malformed \<Rightarrow> None | Json d \<Rightarrow> Some d)"

definition JSON_stringify :: "doc \<Rightarrow> content" where
  "JSON_stringify d = Json d"

text \<open>\<^verbatim>\<open>new Date(obj.createdAt).getTime()\<close>\<close>

definition getTime :: "doc \<Rightarrow> int option" where
  "getTime d = createdAt d"

text \<open>
  The test \<^verbatim>\<open>new Date(p.createdAt).getTime() >= cutoff\<close> of the feed (line 111) and of
  \<^verbatim>\<open>listBy\<close> (line 137), and the test \<^verbatim>\<open>new Date(obj.createdAt).getTime() < cutoff\<close> of the
  cleanup (line 211). Both are false on \<^verbatim>\<open>NaN\<close>.
\<close>

definition ge_cutoff :: "doc \<Rightarrow> int \<Rightarrow> bool" where
  "ge_cutoff d cutoff = (case getTime d of None \<Rightarrow> False | Some t \<Rightarrow> t \<ge> cutoff)"

definition lt_cutoff :: "doc \<Rightarrow> int \<Rightarrow> bool" where
  "lt_cutoff d cutoff = (case getTime d of None \<Rightarrow> False | Some t \<Rightarrow> t < cutoff)"

text \<open>The test \<^verbatim>\<open>it.type !== "file" || !it.name.endsWith(".json")\<close> that makes a loop skip an item.\<close>

definition skipped :: "'a item_scheme \<Rightarrow> bool" where
  "skipped it = (type it \<noteq> ''file'' \<or> \<not> endsWith (name it) ''.json'')"

subsection \<open>The remote service\<close>

text \<open>
  The service is not part of the program. Its stand-in follows what the program and
  section 6 of the specification require of it: a listing gives the name and type of
  each entry of a directory (none when the directory does not exist); a file is found by
  its directory and name (the program joins them with a slash); a write is accepted only
  with the version token the file has at that moment, no token when there is no file;
  a deletion likewise.
\<close>

definition lookup :: "repo \<Rightarrow> string \<Rightarrow> string \<Rightarrow> entry option" where
  "lookup r dir n = find (\<lambda>e. name e = n) (dirs r dir)"

definition current_token :: "repo \<Rightarrow> string \<Rightarrow> string \<Rightarrow> nat option" where
  "current_token r dir n = map_option sha (lookup r dir n)"

definition write_file :: "repo \<Rightarrow> string \<Rightarrow> string \<Rightarrow> content \<Rightarrow> repo" where
  "write_file r dir n c =
     (let e = \<lparr>name = n, type = ''file'', sha = next_sha r, content = c\<rparr>;
          es = dirs r dir;
          es' = (if lookup r dir n = None then es @ [e]
                 else map (\<lambda>x. if name x = n then e else x) es)
      in r\<lparr>dirs := (dirs r)(dir := es'), next_sha := Suc (next_sha r)\<rparr>)"

definition backend_put :: "repo \<Rightarrow> string \<Rightarrow> string \<Rightarrow> content \<Rightarrow> nat option \<Rightarrow> repo option" where
  "backend_put r dir n c token =
     (if token = current_token r dir n then Some (write_file r dir n c) else None)"

definition backend_delete :: "repo \<Rightarrow> string \<Rightarrow> string \<Rightarrow> nat \<Rightarrow> repo option" where
  "backend_delete r dir n token =
     (if Some token = current_token r dir n
      then Some (r\<lparr>dirs := (dirs r)(dir := filter (\<lambda>e. name e \<noteq> n) (dirs r dir))\<rparr>)
      else None)"

subsection \<open>The four calls of the program to the service\<close>

definition item_of :: "entry \<Rightarrow> item" where
  "item_of e = \<lparr>name = name e, type = type e\<rparr>"

definition ghListDir :: "repo \<Rightarrow> string \<Rightarrow> item list" where
  "ghListDir r dir = map item_of (dirs r dir)"

text \<open>\<^verbatim>\<open>ghGet\<close> answers \<^verbatim>\<open>null\<close> on 404, else the token and the content.\<close>

definition ghGet :: "repo \<Rightarrow> string \<Rightarrow> string \<Rightarrow> (nat \<times> content) option" where
  "ghGet r dir n = (case lookup r dir n of None \<Rightarrow> None | Some e \<Rightarrow> Some (sha e, content e))"

text \<open>
  \<^verbatim>\<open>ghPut\<close> reads the file, then writes with the token it has read (no token when the read
  found nothing). Other clients of the repository may write between the two calls:
  \<open>others\<close> is what they do to the repository in between, the identity when the request
  runs alone. A rejected write throws; there is one write attempt.
\<close>

definition ghPut :: "(repo \<Rightarrow> repo) \<Rightarrow> repo \<Rightarrow> string \<Rightarrow> string \<Rightarrow> content \<Rightarrow> (error + unit) \<times> repo" where
  "ghPut others r dir n c =
     (let current = ghGet r dir n;
          body_sha = (case current of None \<Rightarrow> None | Some f \<Rightarrow> Some (fst f));
          r1 = others r
      in case backend_put r1 dir n c body_sha of
           None \<Rightarrow> (Inl (GitHubPutError 409), r1)
         | Some r2 \<Rightarrow> (Inr (), r2))"

definition ghDelete :: "repo \<Rightarrow> string \<Rightarrow> string \<Rightarrow> (error + unit) \<times> repo" where
  "ghDelete r dir n =
     (case ghGet r dir n of
        None \<Rightarrow> (Inr (), r)
      | Some current \<Rightarrow>
          (case backend_delete r dir n (fst current) of
             None \<Rightarrow> (Inl (GitHubDeleteError 409), r)
           | Some r' \<Rightarrow> (Inr (), r')))"

subsection \<open>Sorting\<close>

text \<open>
  \<^verbatim>\<open>Array.prototype.sort\<close> with a comparator is stable; a comparator result of \<^verbatim>\<open>NaN\<close>
  counts as zero. The two comparators of the program subtract the instants of the two
  objects: \<^verbatim>\<open>new Date(b.createdAt) - new Date(a.createdAt)\<close> for the posts (newest first)
  and \<^verbatim>\<open>new Date(a.createdAt) - new Date(b.createdAt)\<close> for \<^verbatim>\<open>listBy\<close> (oldest first).
\<close>

definition date_minus :: "doc \<Rightarrow> doc \<Rightarrow> int" where
  "date_minus x y =
     (case getTime x of None \<Rightarrow> 0
      | Some tx \<Rightarrow> (case getTime y of None \<Rightarrow> 0 | Some ty \<Rightarrow> tx - ty))"

definition newest_first :: "doc \<Rightarrow> doc \<Rightarrow> int" where
  "newest_first a b = date_minus b a"

definition oldest_first :: "doc \<Rightarrow> doc \<Rightarrow> int" where
  "oldest_first a b = date_minus a b"

fun insert_sorted :: "('a \<Rightarrow> 'a \<Rightarrow> int) \<Rightarrow> 'a \<Rightarrow> 'a list \<Rightarrow> 'a list" where
  "insert_sorted cmp x [] = [x]"
| "insert_sorted cmp x (y # ys) =
     (if cmp x y \<le> 0 then x # y # ys else y # insert_sorted cmp x ys)"

definition js_sort :: "('a \<Rightarrow> 'a \<Rightarrow> int) \<Rightarrow> 'a list \<Rightarrow> 'a list" where
  "js_sort cmp xs = foldr (insert_sorted cmp) xs []"

subsection \<open>\<^verbatim>\<open>listBy\<close> and \<^verbatim>\<open>countBy\<close>\<close>

text \<open>
  The loop of \<^verbatim>\<open>listBy\<close> over the listed items; \<open>out\<close> is the array being filled.
  \<^verbatim>\<open>obj[key]\<close> is the field selector \<open>key\<close> applied to the object, and
  \<^verbatim>\<open>obj[key] === value\<close> is equality of the two field values. Destructuring the
  \<^verbatim>\<open>null\<close> that \<^verbatim>\<open>ghGet\<close> returns for a file that is gone throws a \<^verbatim>\<open>TypeError\<close>.
\<close>

fun listBy_loop ::
  "repo \<Rightarrow> string \<Rightarrow> (doc \<Rightarrow> jsval) \<Rightarrow> jsval \<Rightarrow> int \<Rightarrow> doc list \<Rightarrow> item list
     \<Rightarrow> error + doc list" where
  "listBy_loop r dir key v cutoff out [] = Inr out"
| "listBy_loop r dir key v cutoff out (it # items) =
     (if skipped it then listBy_loop r dir key v cutoff out items
      else case ghGet r dir (name it) of
             None \<Rightarrow> Inl TypeError
           | Some f \<Rightarrow>
               (case JSON_parse (snd f) of
                  None \<Rightarrow> Inl SyntaxError
                | Some obj \<Rightarrow>
                    if key obj = v \<and> ge_cutoff obj cutoff
                    then listBy_loop r dir key v cutoff (out @ [obj]) items
                    else listBy_loop r dir key v cutoff out items))"

definition listBy ::
  "repo \<Rightarrow> string \<Rightarrow> (doc \<Rightarrow> jsval) \<Rightarrow> jsval \<Rightarrow> int \<Rightarrow> error + doc list" where
  "listBy r folder key v cutoff =
     (let dir = folder_path folder;
          items = ghListDir r dir
      in case listBy_loop r dir key v cutoff [] items of
           Inl e \<Rightarrow> Inl e
         | Inr out \<Rightarrow> Inr (js_sort oldest_first out))"

definition countBy ::
  "repo \<Rightarrow> string \<Rightarrow> (doc \<Rightarrow> jsval) \<Rightarrow> jsval \<Rightarrow> int \<Rightarrow> error + nat" where
  "countBy r folder key v cutoff =
     (case listBy r folder key v cutoff of Inl e \<Rightarrow> Inl e | Inr arr \<Rightarrow> Inr (length arr))"

subsection \<open>The feed\<close>

fun feed_loop :: "repo \<Rightarrow> string \<Rightarrow> int \<Rightarrow> doc list \<Rightarrow> item list \<Rightarrow> error + doc list" where
  "feed_loop r postsDir cutoff posts [] = Inr posts"
| "feed_loop r postsDir cutoff posts (it # items) =
     (if skipped it then feed_loop r postsDir cutoff posts items
      else case ghGet r postsDir (name it) of
             None \<Rightarrow> Inl TypeError
           | Some f \<Rightarrow>
               (case JSON_parse (snd f) of
                  None \<Rightarrow> Inl SyntaxError
                | Some p \<Rightarrow>
                    if ge_cutoff p cutoff
                    then feed_loop r postsDir cutoff (posts @ [p]) items
                    else feed_loop r postsDir cutoff posts items))"

text \<open>The second loop of the feed attaches the like count and the comments to each post.\<close>

fun attach :: "repo \<Rightarrow> int \<Rightarrow> doc list \<Rightarrow> error + feedpost list" where
  "attach r cutoff [] = Inr []"
| "attach r cutoff (p # posts) =
     (case countBy r ''likes'' postId (doc_id p) cutoff of
        Inl e \<Rightarrow> Inl e
      | Inr n \<Rightarrow>
         (case listBy r ''comments'' postId (doc_id p) cutoff of
            Inl e \<Rightarrow> Inl e
          | Inr cs \<Rightarrow>
             (case attach r cutoff posts of
                Inl e \<Rightarrow> Inl e
              | Inr rest \<Rightarrow>
                  Inr (\<lparr>post = p, likes = n, comments = cs, commentCount = length cs\<rparr> # rest))))"

definition feed :: "repo \<Rightarrow> int \<Rightarrow> failure + feedpost list" where
  "feed r now =
     (let cutoff = now - TTL_MS;
          postsDir = folder_path ''posts'';
          items = ghListDir r postsDir
      in case feed_loop r postsDir cutoff [] items of
           Inl e \<Rightarrow> Inl (Status500 e)
         | Inr posts \<Rightarrow>
             (case attach r cutoff (js_sort newest_first posts) of
                Inl e \<Rightarrow> Inl (Status500 e)
              | Inr out \<Rightarrow> Inr out))"

subsection \<open>The three routes that create an object\<close>

text \<open>
  \<open>uid\<close> is what \<^verbatim>\<open>uid()\<close> returns and \<open>stamp\<close> the instant at which \<^verbatim>\<open>nowISO()\<close> reads the
  clock; \<open>now\<close> is the instant of \<^verbatim>\<open>Date.now()\<close>. The request runs alone: no other
  client writes between the read and the write of \<^verbatim>\<open>ghPut\<close>.
\<close>

definition createPost ::
  "repo \<Rightarrow> string \<Rightarrow> int \<Rightarrow> jsval \<Rightarrow> jsval \<Rightarrow> jsval
     \<Rightarrow> (failure + doc) \<times> repo" where
  "createPost r uid stamp author' text' imageUrl' =
     (if \<not> truthy author' \<or> \<not> truthy text' then (Inl (Status400 ''author and text required''), r)
      else
        let p = \<lparr>doc_id = Str uid, author = author', doc_text = text',
                 imageUrl = (if truthy imageUrl' then imageUrl' else Null),
                 postId = Undefined, user = Undefined, createdAt = Some stamp\<rparr>
        in case ghPut (\<lambda>x. x) r (folder_path ''posts'') (uid @ ''.json'') (JSON_stringify p) of
             (Inl e, r') \<Rightarrow> (Inl (Status500 e), r')
           | (Inr u, r') \<Rightarrow> (Inr p, r'))"

definition createComment ::
  "repo \<Rightarrow> string \<Rightarrow> int \<Rightarrow> jsval \<Rightarrow> jsval \<Rightarrow> jsval
     \<Rightarrow> (failure + doc) \<times> repo" where
  "createComment r uid stamp postId' user' text' =
     (if \<not> truthy postId' \<or> \<not> truthy user' \<or> \<not> truthy text'
      then (Inl (Status400 ''postId, user, text required''), r)
      else
        let c = \<lparr>doc_id = Str uid, author = Undefined, doc_text = text', imageUrl = Undefined,
                 postId = postId', user = user', createdAt = Some stamp\<rparr>
        in case ghPut (\<lambda>x. x) r (folder_path ''comments'') (uid @ ''.json'') (JSON_stringify c) of
             (Inl e, r') \<Rightarrow> (Inl (Status500 e), r')
           | (Inr u, r') \<Rightarrow> (Inr c, r'))"

definition createLike ::
  "repo \<Rightarrow> string \<Rightarrow> int \<Rightarrow> int \<Rightarrow> jsval \<Rightarrow> jsval
     \<Rightarrow> (failure + like_response) \<times> repo" where
  "createLike r uid now stamp postId' user' =
     (if \<not> truthy postId' \<or> \<not> truthy user' then (Inl (Status400 ''postId and user required''), r)
      else
        let cutoff = now - TTL_MS
        in case listBy r ''likes'' postId postId' cutoff of
             Inl e \<Rightarrow> (Inl (Status500 e), r)
           | Inr existing \<Rightarrow>
               (case find (\<lambda>x. user x = user') existing of
                  Some dup \<Rightarrow> (Inr Duplicate, r)
                | None \<Rightarrow>
                    (let l = \<lparr>doc_id = Str uid, author = Undefined, doc_text = Undefined, imageUrl = Undefined,
                              postId = postId', user = user', createdAt = Some stamp\<rparr>
                     in (case ghPut (\<lambda>x. x) r (folder_path ''likes'') (uid @ ''.json'') (JSON_stringify l) of
                           (Inl e, r') \<Rightarrow> (Inl (Status500 e), r')
                         | (Inr u, r') \<Rightarrow> (Inr (Created l), r')))))"

subsection \<open>The cleanup\<close>

fun cleanup_loop :: "repo \<Rightarrow> string \<Rightarrow> int \<Rightarrow> nat \<Rightarrow> item list \<Rightarrow> (error + nat) \<times> repo" where
  "cleanup_loop r dir cutoff deleted [] = (Inr deleted, r)"
| "cleanup_loop r dir cutoff deleted (it # items) =
     (if skipped it then cleanup_loop r dir cutoff deleted items
      else case ghGet r dir (name it) of
             None \<Rightarrow> (Inl TypeError, r)
           | Some f \<Rightarrow>
               (case JSON_parse (snd f) of
                  None \<Rightarrow> (Inl SyntaxError, r)
                | Some obj \<Rightarrow>
                    if lt_cutoff obj cutoff
                    then (case ghDelete r dir (name it) of
                            (Inl e, r') \<Rightarrow> (Inl e, r')
                          | (Inr u, r') \<Rightarrow> cleanup_loop r' dir cutoff (Suc deleted) items)
                    else cleanup_loop r dir cutoff deleted items))"

fun cleanup_folders :: "repo \<Rightarrow> int \<Rightarrow> nat \<Rightarrow> string list \<Rightarrow> (error + nat) \<times> repo" where
  "cleanup_folders r cutoff deleted [] = (Inr deleted, r)"
| "cleanup_folders r cutoff deleted (f # folders) =
     (let dir = folder_path f;
          items = ghListDir r dir
      in case cleanup_loop r dir cutoff deleted items of
           (Inl e, r') \<Rightarrow> (Inl e, r')
         | (Inr d, r') \<Rightarrow> cleanup_folders r' cutoff d folders)"

definition cleanup :: "repo \<Rightarrow> int \<Rightarrow> (failure + nat) \<times> repo" where
  "cleanup r now =
     (let cutoff = now - TTL_MS;
          folders = [''posts'', ''comments'', ''likes'']
      in case cleanup_folders r cutoff 0 folders of
           (Inl e, r') \<Rightarrow> (Inl (Status500 e), r')
         | (Inr deleted, r') \<Rightarrow> (Inr deleted, r'))"

subsection \<open>Notions used to state the properties\<close>

text \<open>
  None of the definitions below is part of the program. They say, without loops and
  without the calls to the service, what a directory holds, so that the properties of
  the program can be stated against them.

  The objects a directory holds: those of the entries that a loop does not skip and
  whose content parses, in listing order. A directory is readable when every entry that
  a loop does not skip parses, and a repository has unique names in a folder when no two
  entries of that directory share a name (as in any directory of a file system).
\<close>

fun stored_docs :: "entry list \<Rightarrow> doc list" where
  "stored_docs [] = []"
| "stored_docs (e # es) =
     (if skipped e then stored_docs es
      else case content e of Malformed \<Rightarrow> stored_docs es | Json d \<Rightarrow> d # stored_docs es)"

definition readable :: "entry list \<Rightarrow> bool" where
  "readable es = (\<forall>e \<in> set es. skipped e \<or> content e \<noteq> Malformed)"

definition readable_folder :: "repo \<Rightarrow> string \<Rightarrow> bool" where
  "readable_folder r folder = readable (dirs r (folder_path folder))"

definition unique_names :: "repo \<Rightarrow> string \<Rightarrow> bool" where
  "unique_names r folder = distinct (map name (dirs r (folder_path folder)))"

text \<open>
  The posts that pass the test of the window, and the likes and comments of a post that
  pass it, in listing order.
\<close>

definition visible_posts :: "repo \<Rightarrow> int \<Rightarrow> doc list" where
  "visible_posts r cutoff =
     filter (\<lambda>d. ge_cutoff d cutoff) (stored_docs (dirs r (folder_path ''posts'')))"

definition likes_of :: "repo \<Rightarrow> jsval \<Rightarrow> int \<Rightarrow> doc list" where
  "likes_of r pid cutoff =
     filter (\<lambda>d. postId d = pid \<and> ge_cutoff d cutoff) (stored_docs (dirs r (folder_path ''likes'')))"

definition comments_of :: "repo \<Rightarrow> jsval \<Rightarrow> int \<Rightarrow> doc list" where
  "comments_of r pid cutoff =
     filter (\<lambda>d. postId d = pid \<and> ge_cutoff d cutoff) (stored_docs (dirs r (folder_path ''comments'')))"

definition with_attachments :: "repo \<Rightarrow> int \<Rightarrow> doc \<Rightarrow> feedpost" where
  "with_attachments r cutoff p =
     \<lparr>post = p,
      likes = length (likes_of r (doc_id p) cutoff),
      comments = js_sort oldest_first (comments_of r (doc_id p) cutoff),
      commentCount = length (comments_of r (doc_id p) cutoff)\<rparr>"

text \<open>
  Order of creation: \<open>not_after a b\<close> when both instants can be read and that of \<open>a\<close> is
  at most that of \<open>b\<close>. \<open>instant\<close> is the sorting key in the proofs; it is only applied
  to objects whose instant can be read.
\<close>

definition not_after :: "doc \<Rightarrow> doc \<Rightarrow> bool" where
  "not_after a b =
     (case getTime a of None \<Rightarrow> False
      | Some x \<Rightarrow> (case getTime b of None \<Rightarrow> False | Some y \<Rightarrow> x \<le> y))"

definition instant :: "doc \<Rightarrow> int" where
  "instant d = (case getTime d of None \<Rightarrow> 0 | Some t \<Rightarrow> t)"

text \<open>
  What the cleanup is to remove at a cutoff: the entries that are not skipped and hold
  an object older than the cutoff. \<open>purge\<close> removes them from the three directories,
  \<open>expired_count\<close> counts them, and \<open>expired_docs\<close> are their objects.
\<close>

definition doomed :: "int \<Rightarrow> entry \<Rightarrow> bool" where
  "doomed c e = (\<not> skipped e \<and> (case content e of Malformed \<Rightarrow> False | Json d \<Rightarrow> lt_cutoff d c))"

definition purge :: "repo \<Rightarrow> int \<Rightarrow> repo" where
  "purge r c =
     r\<lparr>dirs := (dirs r)
        (folder_path ''posts'' := filter (\<lambda>e. \<not> doomed c e) (dirs r (folder_path ''posts'')),
         folder_path ''comments'' := filter (\<lambda>e. \<not> doomed c e) (dirs r (folder_path ''comments'')),
         folder_path ''likes'' := filter (\<lambda>e. \<not> doomed c e) (dirs r (folder_path ''likes'')))\<rparr>"

definition expired_count :: "repo \<Rightarrow> int \<Rightarrow> nat" where
  "expired_count r c =
     length (filter (doomed c) (dirs r (folder_path ''posts''))) +
     length (filter (doomed c) (dirs r (folder_path ''comments''))) +
     length (filter (doomed c) (dirs r (folder_path ''likes'')))"

definition expired_docs :: "repo \<Rightarrow> string \<Rightarrow> int \<Rightarrow> doc list" where
  "expired_docs r folder c = filter (\<lambda>d. lt_cutoff d c) (stored_docs (dirs r (folder_path folder)))"

definition unexpired_docs :: "repo \<Rightarrow> string \<Rightarrow> int \<Rightarrow> doc list" where
  "unexpired_docs r folder c =
     filter (\<lambda>d. \<not> lt_cutoff d c) (stored_docs (dirs r (folder_path folder)))"

text \<open>
  The loop of the cleanup as a function on the entries of one directory, and the loop
  over the folders as a function on the repository: the answer (the error, or the count
  so far) and what is left. They are used in the proofs only.
\<close>

fun sweep_entries :: "int \<Rightarrow> nat \<Rightarrow> entry list \<Rightarrow> (error + nat) \<times> entry list" where
  "sweep_entries c k [] = (Inr k, [])"
| "sweep_entries c k (e # es) =
     (if skipped e then (fst (sweep_entries c k es), e # snd (sweep_entries c k es))
      else case content e of
             Malformed \<Rightarrow> (Inl SyntaxError, e # es)
           | Json d \<Rightarrow>
               if lt_cutoff d c then sweep_entries c (Suc k) es
               else (fst (sweep_entries c k es), e # snd (sweep_entries c k es)))"

fun sweep_folders :: "int \<Rightarrow> nat \<Rightarrow> repo \<Rightarrow> string list \<Rightarrow> (error + nat) \<times> repo" where
  "sweep_folders c k r [] = (Inr k, r)"
| "sweep_folders c k r (f # fs) =
     (case fst (sweep_entries c k (dirs r (folder_path f))) of
        Inl e \<Rightarrow> (Inl e, r\<lparr>dirs := (dirs r)(folder_path f := snd (sweep_entries c k (dirs r (folder_path f))))\<rparr>)
      | Inr d \<Rightarrow>
          sweep_folders c d
            (r\<lparr>dirs := (dirs r)(folder_path f := snd (sweep_entries c k (dirs r (folder_path f))))\<rparr>) fs)"

text \<open>An answer with status 400, and the repository without the entries that the loops skip.\<close>

definition validation_error :: "failure + 'a \<Rightarrow> bool" where
  "validation_error x = (case x of Inl (Status400 m) \<Rightarrow> True | Inl (Status500 e) \<Rightarrow> False | Inr y \<Rightarrow> False)"

definition only_json :: "repo \<Rightarrow> repo" where
  "only_json r = r\<lparr>dirs := (\<lambda>d. filter (\<lambda>e. \<not> skipped e) (dirs r d))\<rparr>"

subsection \<open>Example repositories\<close>

text \<open>
  The repositories on which the properties are instantiated. In \<open>demo_repo\<close>, read at
  instant 100000000, the cutoff is 13600000: the post \<open>p0\<close>, the comment \<open>c0\<close> and the
  like \<open>l0\<close>, created at 10000000, are 25 hours old. \<open>boundary_repo\<close> holds one post
  created at 0, which is 24 hours old at 86400000.
\<close>

definition file_entry :: "string \<Rightarrow> nat \<Rightarrow> content \<Rightarrow> entry" where
  "file_entry n s c = \<lparr>name = n, type = ''file'', sha = s, content = c\<rparr>"

definition a_post :: "string \<Rightarrow> string \<Rightarrow> string \<Rightarrow> int \<Rightarrow> doc" where
  "a_post i a t ts =
     \<lparr>doc_id = Str i, author = Str a, doc_text = Str t, imageUrl = Null,
      postId = Undefined, user = Undefined, createdAt = Some ts\<rparr>"

definition a_comment :: "string \<Rightarrow> string \<Rightarrow> string \<Rightarrow> string \<Rightarrow> int \<Rightarrow> doc" where
  "a_comment i p u t ts =
     \<lparr>doc_id = Str i, author = Undefined, doc_text = Str t, imageUrl = Undefined,
      postId = Str p, user = Str u, createdAt = Some ts\<rparr>"

definition a_like :: "string \<Rightarrow> string \<Rightarrow> string \<Rightarrow> int \<Rightarrow> doc" where
  "a_like i p u ts =
     \<lparr>doc_id = Str i, author = Undefined, doc_text = Undefined, imageUrl = Undefined,
      postId = Str p, user = Str u, createdAt = Some ts\<rparr>"

definition demo_now :: int where
  "demo_now = 100000000"

definition demo_posts :: "entry list" where
  "demo_posts =
     [file_entry ''p2.json'' 1 (Json (a_post ''p2'' ''bob'' ''second'' 30000000)),
      file_entry ''p0.json'' 2 (Json (a_post ''p0'' ''alice'' ''old'' 10000000)),
      \<lparr>name = ''drafts'', type = ''dir'', sha = 3, content = Malformed\<rparr>,
      file_entry ''p3.json'' 4 (Json (a_post ''p3'' ''carol'' ''third'' 40000000)),
      file_entry ''README.md'' 5 Malformed,
      file_entry ''p1.json'' 6 (Json (a_post ''p1'' ''alice'' ''first'' 20000000))]"

definition demo_comments :: "entry list" where
  "demo_comments =
     [file_entry ''c2.json'' 7 (Json (a_comment ''c2'' ''p1'' ''carol'' ''later'' 50300000)),
      file_entry ''c0.json'' 8 (Json (a_comment ''c0'' ''p1'' ''dave'' ''gone'' 10000000)),
      file_entry ''c1.json'' 9 (Json (a_comment ''c1'' ''p1'' ''bob'' ''hey'' 50000000)),
      file_entry ''c3.json'' 10 (Json (a_comment ''c3'' ''p3'' ''bob'' ''nice'' 50100000))]"

definition demo_likes :: "entry list" where
  "demo_likes =
     [file_entry ''l1.json'' 11 (Json (a_like ''l1'' ''p1'' ''bob'' 60000000)),
      file_entry ''l2.json'' 12 (Json (a_like ''l2'' ''p1'' ''carol'' 61000000)),
      file_entry ''l0.json'' 13 (Json (a_like ''l0'' ''p1'' ''dave'' 10000000)),
      file_entry ''l3.json'' 14 (Json (a_like ''l3'' ''p3'' ''bob'' 62000000))]"

definition demo_repo :: repo where
  "demo_repo =
     \<lparr>dirs = (\<lambda>d. if d = ''data/posts'' then demo_posts
                  else if d = ''data/comments'' then demo_comments
                  else if d = ''data/likes'' then demo_likes else []),
      next_sha = 15\<rparr>"

definition demo_feed :: "feedpost list" where
  "demo_feed =
     [\<lparr>post = a_post ''p3'' ''carol'' ''third'' 40000000, likes = 1,
       comments = [a_comment ''c3'' ''p3'' ''bob'' ''nice'' 50100000], commentCount = 1\<rparr>,
      \<lparr>post = a_post ''p2'' ''bob'' ''second'' 30000000, likes = 0, comments = [], commentCount = 0\<rparr>,
      \<lparr>post = a_post ''p1'' ''alice'' ''first'' 20000000, likes = 2,
       comments = [a_comment ''c1'' ''p1'' ''bob'' ''hey'' 50000000,
                   a_comment ''c2'' ''p1'' ''carol'' ''later'' 50300000], commentCount = 2\<rparr>]"

definition boundary_post :: doc where
  "boundary_post = a_post ''p0'' ''alice'' ''hi'' 0"

definition boundary_entry :: entry where
  "boundary_entry = file_entry ''p0.json'' 0 (Json boundary_post)"

definition boundary_repo :: repo where
  "boundary_repo = \<lparr>dirs = (\<lambda>d. if d = ''data/posts'' then [boundary_entry] else []), next_sha = 1\<rparr>"

definition undated_post :: doc where
  "undated_post =
     \<lparr>doc_id = Str ''p5'', author = Str ''alice'', doc_text = Str ''hi'', imageUrl = Null,
      postId = Undefined, user = Undefined, createdAt = None\<rparr>"

definition undated_entry :: entry where
  "undated_entry = file_entry ''p5.json'' 0 (Json undated_post)"

definition undated_repo :: repo where
  "undated_repo = \<lparr>dirs = (\<lambda>d. if d = ''data/posts'' then [undated_entry] else []), next_sha = 1\<rparr>"

definition null_id_post :: doc where
  "null_id_post =
     \<lparr>doc_id = Null, author = Str ''alice'', doc_text = Str ''hi'', imageUrl = Null,
      postId = Undefined, user = Undefined, createdAt = Some 50000000\<rparr>"

definition no_id_post :: doc where
  "no_id_post =
     \<lparr>doc_id = Undefined, author = Str ''bob'', doc_text = Str ''ho'', imageUrl = Null,
      postId = Undefined, user = Undefined, createdAt = Some 40000000\<rparr>"

definition orphan_like :: doc where
  "orphan_like =
     \<lparr>doc_id = Str ''l7'', author = Undefined, doc_text = Undefined, imageUrl = Undefined,
      postId = Undefined, user = Str ''carol'', createdAt = Some 60000000\<rparr>"

definition orphan_comment :: doc where
  "orphan_comment =
     \<lparr>doc_id = Str ''c7'', author = Undefined, doc_text = Str ''hm'', imageUrl = Undefined,
      postId = Undefined, user = Str ''carol'', createdAt = Some 60000000\<rparr>"

definition orphan_repo :: repo where
  "orphan_repo =
     \<lparr>dirs = (\<lambda>d. if d = ''data/posts''
                    then [file_entry ''a.json'' 1 (Json null_id_post),
                          file_entry ''b.json'' 2 (Json no_id_post)]
                  else if d = ''data/comments'' then [file_entry ''c7.json'' 3 (Json orphan_comment)]
                  else if d = ''data/likes'' then [file_entry ''l7.json'' 4 (Json orphan_like)]
                  else []),
      next_sha = 5\<rparr>"

definition orphan_feed :: "feedpost list" where
  "orphan_feed =
     [\<lparr>post = null_id_post, likes = 0, comments = [], commentCount = 0\<rparr>,
      \<lparr>post = no_id_post, likes = 1, comments = [orphan_comment], commentCount = 1\<rparr>]"

definition demo_p1 :: feedpost where
  "demo_p1 = \<lparr>post = a_post ''p1'' ''alice'' ''first'' 20000000, likes = 2,
       comments = [a_comment ''c1'' ''p1'' ''bob'' ''hey'' 50000000,
                   a_comment ''c2'' ''p1'' ''carol'' ''later'' 50300000], commentCount = 2\<rparr>"

definition rival :: "repo \<Rightarrow> repo" where
  "rival r = write_file r ''data/likes'' ''l1.json'' (Json (a_like ''l1'' ''p1'' ''eve'' 70000000))"

definition empty_repo :: repo where
  "empty_repo = \<lparr>dirs = (\<lambda>d. []), next_sha = 0\<rparr>"

definition corrupt_repo :: repo where
  "corrupt_repo =
     \<lparr>dirs = (\<lambda>d. if d = ''data/posts'' then demo_posts
                  else if d = ''data/comments'' then demo_comments
                  else if d = ''data/likes'' then demo_likes @ [file_entry ''l4.json'' 15 Malformed]
                  else []),
      next_sha = 16\<rparr>"

section \<open>Properties\<close>

subsection \<open>Reading the files of a directory\<close>

lemma skipped_item_of [simp]: "skipped (item_of e) = skipped e"
  by (simp add: skipped_def item_of_def)

lemma name_item_of [simp]: "name (item_of e) = name e"
  by (simp add: item_of_def)

lemma find_name_distinct:
  "distinct (map name es) \<Longrightarrow> e \<in> set es \<Longrightarrow> find (\<lambda>x. name x = name e) es = Some e"
  by (induction es) auto

lemma ghGet_listed:
  "distinct (map name (dirs r dir)) \<Longrightarrow> e \<in> set (dirs r dir)
     \<Longrightarrow> ghGet r dir (name e) = Some (sha e, content e)"
  by (simp add: ghGet_def lookup_def find_name_distinct)

lemma readable_Cons [simp]:
  "readable (e # es) = ((skipped e \<or> content e \<noteq> Malformed) \<and> readable es)"
  by (simp add: readable_def)

lemma readable_Nil [simp]: "readable []"
  by (simp add: readable_def)

lemma listBy_loop_listed:
  assumes "distinct (map name (dirs r dir))" and "set xs \<subseteq> set (dirs r dir)"
  shows "listBy_loop r dir key v c out (map item_of xs) =
           (if readable xs
            then Inr (out @ filter (\<lambda>d. key d = v \<and> ge_cutoff d c) (stored_docs xs))
            else Inl SyntaxError)"
  using assms(2)
proof (induction xs arbitrary: out)
  case Nil
  show ?case by simp
next
  case (Cons x xs)
  from Cons.prems have x: "x \<in> set (dirs r dir)" and xs: "set xs \<subseteq> set (dirs r dir)"
    by auto
  have g: "ghGet r dir (name x) = Some (sha x, content x)"
    using assms(1) x by (rule ghGet_listed)
  show ?case
  proof (cases "skipped x")
    case True
    then show ?thesis using Cons.IH [OF xs] by simp
  next
    case False
    show ?thesis
    proof (cases "content x")
      case Malformed
      then show ?thesis using False g by (simp add: JSON_parse_def)
    next
      case (Json d)
      then show ?thesis using False g Cons.IH [OF xs] by (simp add: JSON_parse_def)
    qed
  qed
qed

lemma feed_loop_listed:
  assumes "distinct (map name (dirs r dir))" and "set xs \<subseteq> set (dirs r dir)"
  shows "feed_loop r dir c out (map item_of xs) =
           (if readable xs
            then Inr (out @ filter (\<lambda>d. ge_cutoff d c) (stored_docs xs))
            else Inl SyntaxError)"
  using assms(2)
proof (induction xs arbitrary: out)
  case Nil
  show ?case by simp
next
  case (Cons x xs)
  from Cons.prems have x: "x \<in> set (dirs r dir)" and xs: "set xs \<subseteq> set (dirs r dir)"
    by auto
  have g: "ghGet r dir (name x) = Some (sha x, content x)"
    using assms(1) x by (rule ghGet_listed)
  show ?case
  proof (cases "skipped x")
    case True
    then show ?thesis using Cons.IH [OF xs] by simp
  next
    case False
    show ?thesis
    proof (cases "content x")
      case Malformed
      then show ?thesis using False g by (simp add: JSON_parse_def)
    next
      case (Json d)
      then show ?thesis using False g Cons.IH [OF xs] by (simp add: JSON_parse_def)
    qed
  qed
qed

subsection \<open>Sorting by creation instant\<close>

lemma insert_sorted_oldest:
  "getTime x \<noteq> None \<Longrightarrow> \<forall>y \<in> set ys. getTime y \<noteq> None
     \<Longrightarrow> insert_sorted oldest_first x ys = insort_key instant x ys"
  by (induction ys) (auto simp: oldest_first_def date_minus_def instant_def)

lemma insert_sorted_newest:
  "getTime x \<noteq> None \<Longrightarrow> \<forall>y \<in> set ys. getTime y \<noteq> None
     \<Longrightarrow> insert_sorted newest_first x ys = insort_key (\<lambda>d. - instant d) x ys"
  by (induction ys) (auto simp: newest_first_def date_minus_def instant_def)

lemma js_sort_Cons: "js_sort cmp (x # xs) = insert_sorted cmp x (js_sort cmp xs)"
  by (simp add: js_sort_def)

lemma js_sort_Nil: "js_sort cmp [] = []"
  by (simp add: js_sort_def)

lemma mset_insert_sorted: "mset (insert_sorted cmp x ys) = add_mset x (mset ys)"
  by (induction ys) auto

lemma mset_js_sort: "mset (js_sort cmp xs) = mset xs"
  by (induction xs) (simp_all add: js_sort_Cons js_sort_Nil mset_insert_sorted)

lemma set_js_sort: "set (js_sort cmp xs) = set xs"
  using mset_js_sort [of cmp xs] by (metis set_mset_mset)

lemma length_js_sort: "length (js_sort cmp xs) = length xs"
  using mset_js_sort [of cmp xs] by (metis size_mset)

lemma js_sort_oldest:
  "\<forall>x \<in> set xs. getTime x \<noteq> None \<Longrightarrow> js_sort oldest_first xs = sort_key instant xs"
  by (induction xs) (simp_all add: js_sort_Cons js_sort_Nil insert_sorted_oldest)

lemma js_sort_newest:
  "\<forall>x \<in> set xs. getTime x \<noteq> None \<Longrightarrow> js_sort newest_first xs = sort_key (\<lambda>d. - instant d) xs"
  by (induction xs) (simp_all add: js_sort_Cons js_sort_Nil insert_sorted_newest)

lemma ge_cutoff_timed: "ge_cutoff d c \<Longrightarrow> getTime d \<noteq> None"
  by (auto simp: ge_cutoff_def split: option.splits)

lemma not_after_instant:
  "getTime a \<noteq> None \<Longrightarrow> getTime b \<noteq> None \<Longrightarrow> instant a \<le> instant b \<Longrightarrow> not_after a b"
  by (auto simp: not_after_def instant_def)

lemma sorted_oldest:
  assumes "\<forall>x \<in> set xs. getTime x \<noteq> None"
  shows "sorted_wrt not_after (js_sort oldest_first xs)"
proof -
  have "sorted (map instant (sort_key instant xs))" by simp
  then have "sorted_wrt (\<lambda>a b. instant a \<le> instant b) (sort_key instant xs)"
    by (simp add: sorted_map)
  moreover have "\<And>a b. a \<in> set (sort_key instant xs) \<Longrightarrow> b \<in> set (sort_key instant xs)
      \<Longrightarrow> instant a \<le> instant b \<Longrightarrow> not_after a b"
    using assms by (simp add: not_after_instant)
  ultimately have "sorted_wrt not_after (sort_key instant xs)"
    by (rule sorted_wrt_mono_rel [rotated])
  then show ?thesis using assms by (simp add: js_sort_oldest)
qed

lemma sorted_newest:
  assumes "\<forall>x \<in> set xs. getTime x \<noteq> None"
  shows "sorted_wrt (\<lambda>a b. not_after b a) (js_sort newest_first xs)"
proof -
  have "sorted (map (\<lambda>d. - instant d) (sort_key (\<lambda>d. - instant d) xs))" by simp
  then have "sorted_wrt (\<lambda>a b. - instant a \<le> - instant b) (sort_key (\<lambda>d. - instant d) xs)"
    by (simp add: sorted_map)
  moreover have "\<And>a b. a \<in> set (sort_key (\<lambda>d. - instant d) xs)
      \<Longrightarrow> b \<in> set (sort_key (\<lambda>d. - instant d) xs)
      \<Longrightarrow> - instant a \<le> - instant b \<Longrightarrow> not_after b a"
    using assms by (simp add: not_after_instant)
  ultimately have "sorted_wrt (\<lambda>a b. not_after b a) (sort_key (\<lambda>d. - instant d) xs)"
    by (rule sorted_wrt_mono_rel [rotated])
  then show ?thesis using assms by (simp add: js_sort_newest)
qed

subsection \<open>The loops on a directory with distinct names\<close>

lemma listBy_folder:
  assumes "unique_names r folder"
  shows "listBy r folder key v c =
           (if readable_folder r folder
            then Inr (js_sort oldest_first
                   (filter (\<lambda>d. key d = v \<and> ge_cutoff d c) (stored_docs (dirs r (folder_path folder)))))
            else Inl SyntaxError)"
proof -
  have "listBy_loop r (folder_path folder) key v c [] (map item_of (dirs r (folder_path folder))) =
          (if readable (dirs r (folder_path folder))
           then Inr ([] @ filter (\<lambda>d. key d = v \<and> ge_cutoff d c) (stored_docs (dirs r (folder_path folder))))
           else Inl SyntaxError)"
    using assms by (intro listBy_loop_listed) (simp_all add: unique_names_def)
  then show ?thesis
    by (simp add: listBy_def ghListDir_def readable_folder_def)
qed

lemma countBy_folder:
  assumes "unique_names r folder"
  shows "countBy r folder key v c =
           (if readable_folder r folder
            then Inr (length
                   (filter (\<lambda>d. key d = v \<and> ge_cutoff d c) (stored_docs (dirs r (folder_path folder)))))
            else Inl SyntaxError)"
  by (simp add: countBy_def listBy_folder [OF assms] length_js_sort)

lemma attach_folders:
  assumes "unique_names r ''likes''" and "unique_names r ''comments''"
  shows "attach r c ps =
           (if ps = [] then Inr []
            else if readable_folder r ''likes'' \<and> readable_folder r ''comments''
            then Inr (map (with_attachments r c) ps)
            else Inl SyntaxError)"
proof (induction ps)
  case Nil
  show ?case by simp
next
  case (Cons p ps)
  show ?case
    by (simp add: countBy_folder [OF assms(1)] listBy_folder [OF assms(2)] Cons.IH
        with_attachments_def likes_of_def comments_of_def length_js_sort)
qed

lemma feed_loop_folder:
  assumes "unique_names r ''posts''"
  shows "feed_loop r (folder_path ''posts'') c [] (ghListDir r (folder_path ''posts'')) =
           (if readable_folder r ''posts'' then Inr (visible_posts r c) else Inl SyntaxError)"
proof -
  have "feed_loop r (folder_path ''posts'') c [] (map item_of (dirs r (folder_path ''posts''))) =
          (if readable (dirs r (folder_path ''posts''))
           then Inr ([] @ filter (\<lambda>d. ge_cutoff d c) (stored_docs (dirs r (folder_path ''posts''))))
           else Inl SyntaxError)"
    using assms by (intro feed_loop_listed) (simp_all add: unique_names_def)
  then show ?thesis
    by (simp add: ghListDir_def readable_folder_def visible_posts_def)
qed

lemma feed_folders:
  assumes "unique_names r ''posts''" and "unique_names r ''likes''" and "unique_names r ''comments''"
  shows "feed r now =
           (if \<not> readable_folder r ''posts'' then Inl (Status500 SyntaxError)
            else if visible_posts r (now - TTL_MS) = [] then Inr []
            else if readable_folder r ''likes'' \<and> readable_folder r ''comments''
            then Inr (map (with_attachments r (now - TTL_MS))
                       (js_sort newest_first (visible_posts r (now - TTL_MS))))
            else Inl (Status500 SyntaxError))"
proof -
  have e: "js_sort newest_first ps = [] \<longleftrightarrow> ps = []" for ps :: "doc list"
    using length_js_sort [of newest_first ps] by (metis length_0_conv)
  show ?thesis
    by (simp add: feed_def Let_def feed_loop_folder [OF assms(1)]
        attach_folders [OF assms(2) assms(3)] e js_sort_Nil)
qed

lemma visible_posts_timed: "\<forall>d \<in> set (visible_posts r c). getTime d \<noteq> None"
  by (auto simp: visible_posts_def dest: ge_cutoff_timed)

lemma comments_of_timed: "\<forall>d \<in> set (comments_of r pid c). getTime d \<noteq> None"
  by (auto simp: comments_of_def dest: ge_cutoff_timed)

subsection \<open>Evaluating the examples\<close>

lemmas demo_defs = demo_repo_def demo_posts_def demo_comments_def demo_likes_def demo_feed_def
  demo_now_def file_entry_def a_post_def a_comment_def a_like_def

lemmas orphan_defs = orphan_repo_def orphan_feed_def null_id_post_def no_id_post_def
  orphan_like_def orphan_comment_def

lemmas code_defs = feed_def listBy_def countBy_def ghListDir_def ghGet_def lookup_def
  folder_path_def BASE_PATH_def TTL_MS_def skipped_def endsWith_def JSON_parse_def
  JSON_stringify_def getTime_def ge_cutoff_def lt_cutoff_def item_of_def js_sort_def
  oldest_first_def newest_first_def date_minus_def

lemma demo_feed_value: "feed demo_repo demo_now = Inr demo_feed"
  by (simp add: demo_defs code_defs)

lemmas folder_defs = unique_names_def readable_folder_def folder_path_def BASE_PATH_def

lemma demo_unique:
  "unique_names demo_repo ''posts''" "unique_names demo_repo ''comments''"
  "unique_names demo_repo ''likes''"
  by (simp_all add: folder_defs demo_defs)

lemma demo_readable:
  "readable_folder demo_repo ''posts''" "readable_folder demo_repo ''comments''"
  "readable_folder demo_repo ''likes''"
  by (simp_all add: folder_defs demo_defs skipped_def endsWith_def)

lemmas boundary_defs = boundary_post_def boundary_entry_def boundary_repo_def file_entry_def a_post_def

lemma attach_posts: "attach r c ps = Inr out \<Longrightarrow> map post out = ps"
  by (induction ps arbitrary: out) (auto split: sum.splits)

lemma attach_member:
  "attach r c ps = Inr out \<Longrightarrow> f \<in> set out
     \<Longrightarrow> countBy r ''likes'' postId (doc_id (post f)) c = Inr (likes f)
       \<and> listBy r ''comments'' postId (doc_id (post f)) c = Inr (comments f)
       \<and> commentCount f = length (comments f)"
  by (induction ps arbitrary: out) (auto split: sum.splits)

lemma feed_Inr:
  assumes "feed r now = Inr out"
  obtains ps where
    "feed_loop r (folder_path ''posts'') (now - TTL_MS) [] (ghListDir r (folder_path ''posts'')) = Inr ps"
    and "attach r (now - TTL_MS) (js_sort newest_first ps) = Inr out"
  using assms by (auto simp: feed_def Let_def split: sum.splits)

subsection \<open>The 24-hour window\<close>

text \<open>
  A post created at instant 0 and read at instant 86400000 is exactly 24 hours old. The
  test of the feed keeps it, and the feed returns it.
\<close>

theorem age_of_exactly_ttl_is_visible:
  "ge_cutoff boundary_post (86400000 - TTL_MS) \<and> \<not> (86400000 - (0::int) < TTL_MS) \<and>
   feed boundary_repo 86400000 =
     Inr [\<lparr>post = boundary_post, likes = 0, comments = [], commentCount = 0\<rparr>]"
  by (simp add: boundary_defs code_defs)

text \<open>
  Claim C1, as the program has it. An object with a readable instant \<open>t\<close> passes the
  test \<open>>= cutoff\<close> at \<open>now\<close> exactly when \<open>now - t\<close> is at most 24 hours, so an age of
  exactly 24 hours is still visible; the test \<open>< cutoff\<close> of the cleanup holds exactly
  when the other fails. The three places that test an object agree: on a listed file
  holding the object, the loop of the feed and the loop of \<^verbatim>\<open>listBy\<close> (which is also the
  scan for an earlier like) keep it exactly when its age is at most 24 hours, and the
  loop of the cleanup deletes and counts it exactly when its age is more.
  An object \<open>u\<close> whose instant cannot be read passes neither test, at any cutoff: on a
  listed file holding it, the feed and \<^verbatim>\<open>listBy\<close> leave it out and the cleanup neither
  deletes nor counts it.
\<close>

theorem visible_iff_age_at_most_ttl:
  assumes "getTime d = Some t" and "lookup r dir (name e) = Some e"
    and "\<not> skipped e" and "content e = Json d"
  shows "(ge_cutoff d (now - TTL_MS) \<longleftrightarrow> now - t \<le> TTL_MS) \<and>
         (lt_cutoff d (now - TTL_MS) \<longleftrightarrow> \<not> now - t \<le> TTL_MS) \<and>
         feed_loop r dir (now - TTL_MS) posts [item_of e] =
           Inr (if now - t \<le> TTL_MS then posts @ [d] else posts) \<and>
         listBy_loop r dir key (key d) (now - TTL_MS) out [item_of e] =
           Inr (if now - t \<le> TTL_MS then out @ [d] else out) \<and>
         fst (cleanup_loop r dir (now - TTL_MS) k [item_of e]) =
           Inr (if now - t \<le> TTL_MS then k else Suc k) \<and>
         (getTime u = None \<longrightarrow> \<not> ge_cutoff u c \<and> \<not> lt_cutoff u c) \<and>
         (getTime u = None \<and> lookup r' dir' (name f) = Some f \<and> \<not> skipped f \<and> content f = Json u \<longrightarrow>
            feed_loop r' dir' c posts [item_of f] = Inr posts \<and>
            listBy_loop r' dir' key v c out [item_of f] = Inr out \<and>
            cleanup_loop r' dir' c k [item_of f] = (Inr k, r'))"
proof -
  have v: "ge_cutoff d (now - TTL_MS) \<longleftrightarrow> now - t \<le> TTL_MS"
    using assms(1) by (auto simp: ge_cutoff_def)
  have x: "lt_cutoff d (now - TTL_MS) \<longleftrightarrow> \<not> now - t \<le> TTL_MS"
    using assms(1) by (auto simp: lt_cutoff_def)
  have g: "ghGet r dir (name e) = Some (sha e, content e)"
    using assms(2) by (simp add: ghGet_def)
  have p: "JSON_parse (content e) = Some d"
    using assms(4) by (simp add: JSON_parse_def)
  have del: "fst (ghDelete r dir (name e)) = Inr ()"
    using assms(2) by (simp add: ghDelete_def g backend_delete_def current_token_def)
  have 1: "feed_loop r dir (now - TTL_MS) posts [item_of e] =
             Inr (if now - t \<le> TTL_MS then posts @ [d] else posts)"
    using assms(3) by (simp add: g p v)
  have 2: "listBy_loop r dir key (key d) (now - TTL_MS) out [item_of e] =
             Inr (if now - t \<le> TTL_MS then out @ [d] else out)"
    using assms(3) by (simp add: g p v)
  have 3: "fst (cleanup_loop r dir (now - TTL_MS) k [item_of e]) =
             Inr (if now - t \<le> TTL_MS then k else Suc k)"
    using assms(3) del by (cases "ghDelete r dir (name e)") (auto simp: g p x)
  have 4: "getTime u = None \<longrightarrow> \<not> ge_cutoff u c \<and> \<not> lt_cutoff u c"
    by (simp add: ge_cutoff_def lt_cutoff_def)
  have 5: "getTime u = None \<and> lookup r' dir' (name f) = Some f \<and> \<not> skipped f \<and> content f = Json u \<longrightarrow>
            feed_loop r' dir' c posts [item_of f] = Inr posts \<and>
            listBy_loop r' dir' key v c out [item_of f] = Inr out \<and>
            cleanup_loop r' dir' c k [item_of f] = (Inr k, r')"
    by (simp add: ghGet_def JSON_parse_def ge_cutoff_def lt_cutoff_def)
  from v x 1 2 3 4 5 show ?thesis by blast
qed

text \<open>
  The boundary file again: hypotheses and conclusions at an age of exactly 24 hours.
  Then a file whose object has no creation date.
\<close>

theorem visible_iff_age_at_most_ttl_witness:
  "getTime boundary_post = Some 0 \<and>
   lookup boundary_repo ''data/posts'' (name boundary_entry) = Some boundary_entry \<and>
   \<not> skipped boundary_entry \<and> content boundary_entry = Json boundary_post \<and>
   ge_cutoff boundary_post (86400000 - TTL_MS) \<and>
   \<not> lt_cutoff boundary_post (86400000 - TTL_MS) \<and>
   feed_loop boundary_repo ''data/posts'' (86400000 - TTL_MS) [] [item_of boundary_entry] = Inr [boundary_post] \<and>
   listBy_loop boundary_repo ''data/posts'' author (Str ''alice'') (86400000 - TTL_MS) [] [item_of boundary_entry]
     = Inr [boundary_post] \<and>
   fst (cleanup_loop boundary_repo ''data/posts'' (86400000 - TTL_MS) 0 [item_of boundary_entry]) = Inr 0 \<and>
   getTime undated_post = None \<and>
   lookup undated_repo ''data/posts'' (name undated_entry) = Some undated_entry \<and>
   \<not> skipped undated_entry \<and> content undated_entry = Json undated_post \<and>
   \<not> ge_cutoff undated_post 5 \<and> \<not> lt_cutoff undated_post 5 \<and>
   feed_loop undated_repo ''data/posts'' 5 [] [item_of undated_entry] = Inr [] \<and>
   listBy_loop undated_repo ''data/posts'' author (Str ''alice'') 5 [] [item_of undated_entry] = Inr [] \<and>
   cleanup_loop undated_repo ''data/posts'' 5 0 [item_of undated_entry] = (Inr 0, undated_repo)"
proof -
  have h1: "getTime boundary_post = Some 0"
    by (simp add: boundary_defs getTime_def)
  have h2: "lookup boundary_repo ''data/posts'' (name boundary_entry) = Some boundary_entry"
    by (simp add: boundary_defs lookup_def)
  have h3: "\<not> skipped boundary_entry"
    by (simp add: boundary_defs skipped_def endsWith_def)
  have h4: "content boundary_entry = Json boundary_post"
    by (simp add: boundary_defs)
  have a: "author boundary_post = Str ''alice''"
    by (simp add: boundary_defs)
  have n: "(86400000::int) - 0 \<le> TTL_MS"
    by (simp add: TTL_MS_def)
  have u1: "getTime undated_post = None"
    by (simp add: undated_post_def getTime_def)
  have u2: "lookup undated_repo ''data/posts'' (name undated_entry) = Some undated_entry"
    by (simp add: undated_repo_def undated_entry_def file_entry_def lookup_def)
  have u3: "\<not> skipped undated_entry"
    by (simp add: undated_entry_def file_entry_def skipped_def endsWith_def)
  have u4: "content undated_entry = Json undated_post"
    by (simp add: undated_entry_def file_entry_def)
  show ?thesis
    using visible_iff_age_at_most_ttl [OF h1 h2 h3 h4,
        where now = 86400000 and posts = "[]" and key = author and out = "[]" and k = 0
          and u = undated_post and c = 5 and r' = undated_repo and dir' = "''data/posts''"
          and f = undated_entry and v = "Str ''alice''"]
      h1 h2 h3 h4 a n u1 u2 u3 u4
    by simp
qed

subsection \<open>The feed\<close>

text \<open>
  Claim C2. When the feed answers, its posts are exactly the stored posts that pass the
  test of the window (as a multiset: no post lost, none invented, none twice), and they
  are in descending order of creation instant. A post aged 25 hours fails the test and
  is therefore absent. File names within the directory are distinct, as in any
  directory.
\<close>

theorem feed_visible_posts_newest_first:
  assumes "feed r now = Inr out" and "unique_names r ''posts''"
  shows "mset (map post out) = mset (visible_posts r (now - TTL_MS)) \<and>
         sorted_wrt (\<lambda>a b. not_after b a) (map post out)"
proof -
  from assms(1) obtain ps where
    l: "feed_loop r (folder_path ''posts'') (now - TTL_MS) [] (ghListDir r (folder_path ''posts'')) = Inr ps"
    and a: "attach r (now - TTL_MS) (js_sort newest_first ps) = Inr out"
    by (rule feed_Inr)
  from l have ps: "ps = visible_posts r (now - TTL_MS)"
    by (simp add: feed_loop_folder [OF assms(2)] split: if_splits)
  from a have m: "map post out = js_sort newest_first ps"
    by (rule attach_posts)
  have "sorted_wrt (\<lambda>a b. not_after b a) (js_sort newest_first ps)"
    unfolding ps using visible_posts_timed by (rule sorted_newest)
  then show ?thesis
    by (simp add: m mset_js_sort ps)
qed

text \<open>
  The example repository lists four posts in the order \<open>p2, p0, p3, p1\<close>, created at
  30000000, 10000000, 40000000 and 20000000; at 100000000 the post \<open>p0\<close> is 25 hours old.
  The feed is \<open>p3, p2, p1\<close>.
\<close>

theorem feed_visible_posts_newest_first_witness:
  "feed demo_repo demo_now = Inr demo_feed \<and> unique_names demo_repo ''posts'' \<and>
   mset (map post demo_feed) = mset (visible_posts demo_repo (demo_now - TTL_MS)) \<and>
   sorted_wrt (\<lambda>a b. not_after b a) (map post demo_feed) \<and>
   map (doc_id \<circ> post) demo_feed = [Str ''p3'', Str ''p2'', Str ''p1'']"
proof -
  have h1: "feed demo_repo demo_now = Inr demo_feed"
    by (rule demo_feed_value)
  have h2: "unique_names demo_repo ''posts''"
    by (simp add: unique_names_def demo_defs folder_path_def BASE_PATH_def)
  have ids: "map (doc_id \<circ> post) demo_feed = [Str ''p3'', Str ''p2'', Str ''p1'']"
    by (simp add: demo_defs)
  show ?thesis
    using feed_visible_posts_newest_first [OF h1 h2] h1 h2 ids by simp
qed

text \<open>
  Claim C3. For every post of the feed, the like count is the number of stored likes
  that carry the identifier of the post and pass the test of the window; the comments
  are exactly the stored comments that carry it and pass the test, in ascending order
  of creation instant; the comment count is the length of that list.
\<close>

theorem feed_counts_and_comments:
  assumes "feed r now = Inr out" and "unique_names r ''likes''" and "unique_names r ''comments''"
    and "f \<in> set out"
  shows "likes f = length (likes_of r (doc_id (post f)) (now - TTL_MS)) \<and>
         mset (comments f) = mset (comments_of r (doc_id (post f)) (now - TTL_MS)) \<and>
         sorted_wrt not_after (comments f) \<and>
         commentCount f = length (comments f)"
proof -
  from assms(1) obtain ps where
    a: "attach r (now - TTL_MS) (js_sort newest_first ps) = Inr out"
    by (rule feed_Inr)
  from attach_member [OF a assms(4)]
  have c: "countBy r ''likes'' postId (doc_id (post f)) (now - TTL_MS) = Inr (likes f)"
    and l: "listBy r ''comments'' postId (doc_id (post f)) (now - TTL_MS) = Inr (comments f)"
    and n: "commentCount f = length (comments f)"
    by simp_all
  from c have 1: "likes f = length (likes_of r (doc_id (post f)) (now - TTL_MS))"
    by (simp add: countBy_folder [OF assms(2)] likes_of_def split: if_splits)
  from l have 2: "comments f = js_sort oldest_first (comments_of r (doc_id (post f)) (now - TTL_MS))"
    by (simp add: listBy_folder [OF assms(3)] comments_of_def split: if_splits)
  have 3: "sorted_wrt not_after (comments f)"
    unfolding 2 using comments_of_timed by (rule sorted_oldest)
  from 1 2 3 n show ?thesis
    by (simp add: mset_js_sort)
qed

text \<open>
  In the example, post \<open>p1\<close> has two visible likes and one expired, and its comments
  \<open>c2, c0, c1\<close> are listed out of order, \<open>c0\<close> expired: the feed gives 2 likes and the
  comments \<open>c1, c2\<close>.

  Matching is \<^verbatim>\<open>===\<close>. In the second repository a like and a comment have no \<^verbatim>\<open>postId\<close>:
  they are not attached to the post whose \<^verbatim>\<open>id\<close> is \<^verbatim>\<open>null\<close>, and they are attached to the
  post that has no \<^verbatim>\<open>id\<close>, as \<^verbatim>\<open>undefined === undefined\<close> holds.
\<close>

theorem feed_counts_and_comments_witness:
  "feed demo_repo demo_now = Inr demo_feed \<and> unique_names demo_repo ''likes'' \<and>
   unique_names demo_repo ''comments'' \<and> demo_p1 \<in> set demo_feed \<and>
   likes demo_p1 = length (likes_of demo_repo (doc_id (post demo_p1)) (demo_now - TTL_MS)) \<and>
   mset (comments demo_p1) = mset (comments_of demo_repo (doc_id (post demo_p1)) (demo_now - TTL_MS)) \<and>
   sorted_wrt not_after (comments demo_p1) \<and>
   commentCount demo_p1 = length (comments demo_p1) \<and>
   likes demo_p1 = 2 \<and> map doc_id (comments demo_p1) = [Str ''c1'', Str ''c2''] \<and>
   feed orphan_repo demo_now = Inr orphan_feed \<and> unique_names orphan_repo ''likes'' \<and>
   unique_names orphan_repo ''comments'' \<and>
   \<lparr>post = null_id_post, likes = 0, comments = [], commentCount = 0\<rparr> \<in> set orphan_feed \<and>
   likes_of orphan_repo Null (demo_now - TTL_MS) = [] \<and>
   comments_of orphan_repo Null (demo_now - TTL_MS) = [] \<and>
   \<lparr>post = no_id_post, likes = 1, comments = [orphan_comment], commentCount = 1\<rparr> \<in> set orphan_feed \<and>
   likes_of orphan_repo Undefined (demo_now - TTL_MS) = [orphan_like] \<and>
   comments_of orphan_repo Undefined (demo_now - TTL_MS) = [orphan_comment]"
proof -
  have h1: "feed demo_repo demo_now = Inr demo_feed"
    by (rule demo_feed_value)
  have h2: "unique_names demo_repo ''likes''"
    by (simp add: unique_names_def demo_defs folder_path_def BASE_PATH_def)
  have h3: "unique_names demo_repo ''comments''"
    by (simp add: unique_names_def demo_defs folder_path_def BASE_PATH_def)
  have h4: "demo_p1 \<in> set demo_feed"
    by (simp add: demo_defs demo_p1_def)
  have v: "likes demo_p1 = 2 \<and> map doc_id (comments demo_p1) = [Str ''c1'', Str ''c2'']"
    by (simp add: demo_p1_def a_comment_def)
  have first: "likes demo_p1 = length (likes_of demo_repo (doc_id (post demo_p1)) (demo_now - TTL_MS)) \<and>
     mset (comments demo_p1) = mset (comments_of demo_repo (doc_id (post demo_p1)) (demo_now - TTL_MS)) \<and>
     sorted_wrt not_after (comments demo_p1) \<and>
     commentCount demo_p1 = length (comments demo_p1)"
    using feed_counts_and_comments [OF h1 h2 h3 h4] by simp
  have o1: "feed orphan_repo demo_now = Inr orphan_feed"
    by (simp add: orphan_defs demo_now_def file_entry_def code_defs)
  have o2: "unique_names orphan_repo ''likes''"
    by (simp add: unique_names_def orphan_defs file_entry_def folder_path_def BASE_PATH_def)
  have o3: "unique_names orphan_repo ''comments''"
    by (simp add: unique_names_def orphan_defs file_entry_def folder_path_def BASE_PATH_def)
  have o4: "\<lparr>post = null_id_post, likes = 0, comments = [], commentCount = 0\<rparr> \<in> set orphan_feed"
    by (simp add: orphan_feed_def)
  have o5: "\<lparr>post = no_id_post, likes = 1, comments = [orphan_comment], commentCount = 1\<rparr> \<in> set orphan_feed"
    by (simp add: orphan_feed_def)
  have n: "doc_id null_id_post = Null" and m: "doc_id no_id_post = Undefined"
    by (simp_all add: null_id_post_def no_id_post_def)
  have second: "likes_of orphan_repo Null (demo_now - TTL_MS) = [] \<and>
     comments_of orphan_repo Null (demo_now - TTL_MS) = []"
    using feed_counts_and_comments [OF o1 o2 o3 o4] n by simp
  have l: "likes_of orphan_repo Undefined (demo_now - TTL_MS) = [orphan_like]"
    by (simp add: likes_of_def orphan_defs demo_now_def file_entry_def folder_path_def BASE_PATH_def
        skipped_def endsWith_def ge_cutoff_def getTime_def TTL_MS_def)
  have c: "comments_of orphan_repo Undefined (demo_now - TTL_MS) = [orphan_comment]"
    by (simp add: comments_of_def orphan_defs demo_now_def file_entry_def folder_path_def BASE_PATH_def
        skipped_def endsWith_def ge_cutoff_def getTime_def TTL_MS_def)
  from h1 h2 h3 h4 v first o1 o2 o3 o4 o5 second l c show ?thesis by simp
qed

text \<open>
  Claim C6. The feed reads every file of the posts directory that it does not skip, and,
  when at least one post is visible, every such file of the likes directory and then of
  the comments directory. If one of the files it reads does not parse, the feed answers
  with status 500 and the \<^verbatim>\<open>SyntaxError\<close>: there is no list of posts in the answer.
\<close>

theorem feed_fails_on_unparsable_file:
  assumes "unique_names r ''posts''" and "unique_names r ''likes''" and "unique_names r ''comments''"
    and "\<not> readable_folder r ''posts'' \<or>
         (visible_posts r (now - TTL_MS) \<noteq> [] \<and>
          (\<not> readable_folder r ''likes'' \<or> \<not> readable_folder r ''comments''))"
  shows "feed r now = Inl (Status500 SyntaxError)"
  using assms(4) by (auto simp: feed_folders [OF assms(1-3)])

text \<open>The example repository with one more like whose file does not parse.\<close>

theorem feed_fails_on_unparsable_file_witness:
  "unique_names corrupt_repo ''posts'' \<and> unique_names corrupt_repo ''likes'' \<and>
   unique_names corrupt_repo ''comments'' \<and>
   visible_posts corrupt_repo (demo_now - TTL_MS) \<noteq> [] \<and> \<not> readable_folder corrupt_repo ''likes'' \<and>
   feed corrupt_repo demo_now = Inl (Status500 SyntaxError)"
proof -
  have u: "unique_names corrupt_repo ''posts''" "unique_names corrupt_repo ''likes''"
    "unique_names corrupt_repo ''comments''"
    by (simp_all add: folder_defs corrupt_repo_def demo_defs)
  have v: "visible_posts corrupt_repo (demo_now - TTL_MS) \<noteq> []"
    by (simp add: visible_posts_def folder_defs corrupt_repo_def demo_defs skipped_def endsWith_def
        ge_cutoff_def getTime_def TTL_MS_def)
  have b: "\<not> readable_folder corrupt_repo ''likes''"
    by (simp add: folder_defs corrupt_repo_def demo_defs skipped_def endsWith_def)
  have h: "\<not> readable_folder corrupt_repo ''posts'' \<or>
         (visible_posts corrupt_repo (demo_now - TTL_MS) \<noteq> [] \<and>
          (\<not> readable_folder corrupt_repo ''likes'' \<or> \<not> readable_folder corrupt_repo ''comments''))"
    using v b by simp
  show ?thesis
    using feed_fails_on_unparsable_file [OF u h] u v b by simp
qed

subsection \<open>The cleanup as a function on the entries\<close>

lemma filter_other_names:
  "n \<notin> name ` set es \<Longrightarrow> filter (\<lambda>e. name e \<noteq> n) es = es"
  by (induction es) auto

lemma ghDelete_listed:
  assumes "dirs r dir = ps @ x # xs" and "distinct (map name (ps @ x # xs))"
  shows "ghDelete r dir (name x) = (Inr (), r\<lparr>dirs := (dirs r)(dir := ps @ xs)\<rparr>)"
proof -
  have d: "distinct (map name (dirs r dir))" and m: "x \<in> set (dirs r dir)"
    using assms by simp_all
  have l: "lookup r dir (name x) = Some x"
    using d m by (simp add: lookup_def find_name_distinct)
  have "name x \<notin> name ` set ps" and "name x \<notin> name ` set xs"
    using assms(2) by auto
  then have "filter (\<lambda>e. name e \<noteq> name x) (ps @ x # xs) = ps @ xs"
    by (simp add: filter_other_names)
  then show ?thesis
    by (simp add: ghDelete_def ghGet_def l backend_delete_def current_token_def assms(1))
qed

lemma cleanup_loop_sweep:
  assumes "dirs r dir = ps @ xs" and "distinct (map name (ps @ xs))"
  shows "cleanup_loop r dir c k (map item_of xs) =
           (fst (sweep_entries c k xs), r\<lparr>dirs := (dirs r)(dir := ps @ snd (sweep_entries c k xs))\<rparr>)"
  using assms
proof (induction xs arbitrary: r ps k)
  case Nil
  then have "(dirs r)(dir := ps) = dirs r" by auto
  then show ?case by simp
next
  case (Cons x xs)
  have same: "(dirs r)(dir := ps @ x # xs) = dirs r"
    using Cons.prems(1) by auto
  have keep: "cleanup_loop r dir c k (map item_of xs) =
      (fst (sweep_entries c k xs), r\<lparr>dirs := (dirs r)(dir := ps @ x # snd (sweep_entries c k xs))\<rparr>)"
  proof -
    have "cleanup_loop r dir c k (map item_of xs) =
      (fst (sweep_entries c k xs), r\<lparr>dirs := (dirs r)(dir := (ps @ [x]) @ snd (sweep_entries c k xs))\<rparr>)"
      by (rule Cons.IH) (use Cons.prems in simp_all)
    then show ?thesis by simp
  qed
  have g: "ghGet r dir (name x) = Some (sha x, content x)"
    using Cons.prems by (intro ghGet_listed) simp_all
  show ?case
  proof (cases "skipped x")
    case True
    then show ?thesis using keep by (simp del: fun_upd_apply)
  next
    case False
    show ?thesis
    proof (cases "content x")
      case Malformed
      then show ?thesis using False g same by (simp add: JSON_parse_def)
    next
      case (Json d)
      show ?thesis
      proof (cases "lt_cutoff d c")
        case True
        let ?r' = "r\<lparr>dirs := (dirs r)(dir := ps @ xs)\<rparr>"
        have del: "ghDelete r dir (name x) = (Inr (), ?r')"
          using Cons.prems by (rule ghDelete_listed)
        have "cleanup_loop ?r' dir c (Suc k) (map item_of xs) =
            (fst (sweep_entries c (Suc k) xs),
             ?r'\<lparr>dirs := (dirs ?r')(dir := ps @ snd (sweep_entries c (Suc k) xs))\<rparr>)"
          using Cons.prems(2) by (intro Cons.IH) simp_all
        then show ?thesis
          using False Json True g del by (simp add: JSON_parse_def del: fun_upd_apply)
      next
        case no: False
        then show ?thesis using False Json g keep by (simp add: JSON_parse_def del: fun_upd_apply)
      qed
    qed
  qed
qed

lemma sweep_entries_readable:
  "readable xs \<Longrightarrow>
     sweep_entries c k xs = (Inr (k + length (filter (doomed c) xs)), filter (\<lambda>e. \<not> doomed c e) xs)"
  by (induction xs arbitrary: k) (auto simp: doomed_def split: content.splits)

lemma cleanup_loop_folder:
  assumes "unique_names r folder"
  shows "cleanup_loop r (folder_path folder) c k (ghListDir r (folder_path folder)) =
           (fst (sweep_entries c k (dirs r (folder_path folder))),
            r\<lparr>dirs := (dirs r)(folder_path folder := snd (sweep_entries c k (dirs r (folder_path folder))))\<rparr>)"
  using cleanup_loop_sweep [of r "folder_path folder" "[]" "dirs r (folder_path folder)" c k] assms
  by (simp add: unique_names_def ghListDir_def)

lemma folder_paths_differ [simp]:
  "folder_path ''posts'' \<noteq> folder_path ''comments''"
  "folder_path ''posts'' \<noteq> folder_path ''likes''"
  "folder_path ''comments'' \<noteq> folder_path ''likes''"
  "folder_path ''comments'' \<noteq> folder_path ''posts''"
  "folder_path ''likes'' \<noteq> folder_path ''posts''"
  "folder_path ''likes'' \<noteq> folder_path ''comments''"
  by (simp_all add: folder_path_def)

lemma cleanup_readable:
  assumes "unique_names r ''posts''" and "unique_names r ''comments''" and "unique_names r ''likes''"
    and "readable_folder r ''posts''" and "readable_folder r ''comments''" and "readable_folder r ''likes''"
  shows "cleanup r now = (Inr (expired_count r (now - TTL_MS)), purge r (now - TTL_MS))"
proof -
  let ?c = "now - TTL_MS"
  let ?P = "folder_path ''posts''" and ?C = "folder_path ''comments''" and ?L = "folder_path ''likes''"
  let ?keep = "filter (\<lambda>e. \<not> doomed ?c e)"
  let ?n = "\<lambda>d. length (filter (doomed ?c) (dirs r d))"
  let ?r1 = "r\<lparr>dirs := (dirs r)(?P := ?keep (dirs r ?P))\<rparr>"
  let ?r2 = "?r1\<lparr>dirs := (dirs ?r1)(?C := ?keep (dirs r ?C))\<rparr>"
  let ?r3 = "?r2\<lparr>dirs := (dirs ?r2)(?L := ?keep (dirs r ?L))\<rparr>"
  have 1: "cleanup_loop r ?P ?c 0 (ghListDir r ?P) = (Inr (?n ?P), ?r1)"
    using assms(4) cleanup_loop_folder [OF assms(1), of ?c 0]
    by (simp add: readable_folder_def sweep_entries_readable)
  have u2: "unique_names ?r1 ''comments''"
    using assms(2) by (simp add: unique_names_def)
  have 2: "cleanup_loop ?r1 ?C ?c (?n ?P) (ghListDir ?r1 ?C) = (Inr (?n ?P + ?n ?C), ?r2)"
    using assms(5) cleanup_loop_folder [OF u2, of ?c "?n ?P"]
    by (simp add: readable_folder_def sweep_entries_readable)
  have u3: "unique_names ?r2 ''likes''"
    using assms(3) by (simp add: unique_names_def)
  have 3: "cleanup_loop ?r2 ?L ?c (?n ?P + ?n ?C) (ghListDir ?r2 ?L) = (Inr (?n ?P + ?n ?C + ?n ?L), ?r3)"
    using assms(6) cleanup_loop_folder [OF u3, of ?c "?n ?P + ?n ?C"]
    by (simp add: readable_folder_def sweep_entries_readable)
  have "cleanup_folders r ?c 0 [''posts'', ''comments'', ''likes''] = (Inr (?n ?P + ?n ?C + ?n ?L), ?r3)"
    by (simp only: cleanup_folders.simps Let_def 1 2 3 prod.case sum.case)
  moreover have "?r3 = purge r ?c"
    by (simp add: purge_def)
  ultimately show ?thesis
    by (simp add: cleanup_def Let_def expired_count_def)
qed

lemma stored_docs_purged:
  "stored_docs (filter (\<lambda>e. \<not> doomed c e) es) = filter (\<lambda>d. \<not> lt_cutoff d c) (stored_docs es)"
  by (induction es) (auto simp: doomed_def split: content.splits)

lemma doomed_count:
  "readable es \<Longrightarrow>
     length (filter (doomed c) es) = length (filter (\<lambda>d. lt_cutoff d c) (stored_docs es))"
  by (induction es) (auto simp: doomed_def split: content.splits)

lemma distinct_names_filter:
  "distinct (map name es) \<Longrightarrow> distinct (map name (filter P es))"
  by (simp add: distinct_map_filter)

lemma readable_filter: "readable es \<Longrightarrow> readable (filter P es)"
  by (simp add: readable_def)

lemma none_doomed_after_purge: "filter (doomed c) (filter (\<lambda>e. \<not> doomed c e) es) = []"
  by (induction es) auto

lemma purge_dirs:
  "dirs (purge r c) (folder_path ''posts'') = filter (\<lambda>e. \<not> doomed c e) (dirs r (folder_path ''posts''))"
  "dirs (purge r c) (folder_path ''comments'') = filter (\<lambda>e. \<not> doomed c e) (dirs r (folder_path ''comments''))"
  "dirs (purge r c) (folder_path ''likes'') = filter (\<lambda>e. \<not> doomed c e) (dirs r (folder_path ''likes''))"
  by (simp_all add: purge_def)

lemma purge_idem: "purge (purge r c) c = purge r c"
proof (rule repo.equality)
  show "dirs (purge (purge r c) c) = dirs (purge r c)"
    by (rule ext) (simp add: purge_def)
  show "next_sha (purge (purge r c) c) = next_sha (purge r c)"
    by (simp add: purge_def)
  show "repo.more (purge (purge r c) c) = repo.more (purge r c)"
    by simp
qed

lemma expired_count_purge: "expired_count (purge r c) c = 0"
  by (simp add: expired_count_def purge_dirs none_doomed_after_purge)

subsection \<open>The cleanup\<close>

text \<open>
  Claim C4. On a repository whose three directories can be read (distinct names, files
  that parse), the cleanup with the clock at \<open>now\<close> removes from the three directories
  exactly the files it does not skip whose object is older than the cutoff \<open>now - 24h\<close>,
  computed once, and answers with their number. Run again on the result with the same
  clock, it answers 0 and changes nothing. In terms of the stored objects: the number
  answered is the number of expired objects of the three directories, and each
  directory then holds exactly the objects that were not expired.
\<close>

theorem sweep_deletes_expired_then_nothing:
  assumes "unique_names r ''posts''" and "unique_names r ''comments''" and "unique_names r ''likes''"
    and "readable_folder r ''posts''" and "readable_folder r ''comments''" and "readable_folder r ''likes''"
  shows "cleanup r now = (Inr (expired_count r (now - TTL_MS)), purge r (now - TTL_MS)) \<and>
         cleanup (purge r (now - TTL_MS)) now = (Inr 0, purge r (now - TTL_MS)) \<and>
         expired_count r (now - TTL_MS) =
           length (expired_docs r ''posts'' (now - TTL_MS)) +
           length (expired_docs r ''comments'' (now - TTL_MS)) +
           length (expired_docs r ''likes'' (now - TTL_MS)) \<and>
         stored_docs (dirs (purge r (now - TTL_MS)) (folder_path ''posts'')) =
           unexpired_docs r ''posts'' (now - TTL_MS) \<and>
         stored_docs (dirs (purge r (now - TTL_MS)) (folder_path ''comments'')) =
           unexpired_docs r ''comments'' (now - TTL_MS) \<and>
         stored_docs (dirs (purge r (now - TTL_MS)) (folder_path ''likes'')) =
           unexpired_docs r ''likes'' (now - TTL_MS)"
proof -
  let ?r = "purge r (now - TTL_MS)"
  have count: "expired_count r (now - TTL_MS) =
           length (expired_docs r ''posts'' (now - TTL_MS)) +
           length (expired_docs r ''comments'' (now - TTL_MS)) +
           length (expired_docs r ''likes'' (now - TTL_MS))"
    using assms(4-6)
    by (simp add: expired_count_def expired_docs_def readable_folder_def doomed_count)
  have left: "stored_docs (dirs ?r (folder_path ''posts'')) = unexpired_docs r ''posts'' (now - TTL_MS)"
    "stored_docs (dirs ?r (folder_path ''comments'')) = unexpired_docs r ''comments'' (now - TTL_MS)"
    "stored_docs (dirs ?r (folder_path ''likes'')) = unexpired_docs r ''likes'' (now - TTL_MS)"
    by (simp_all add: purge_dirs stored_docs_purged unexpired_docs_def)
  have first: "cleanup r now = (Inr (expired_count r (now - TTL_MS)), ?r)"
    using assms by (rule cleanup_readable)
  have u: "unique_names ?r ''posts''" "unique_names ?r ''comments''" "unique_names ?r ''likes''"
    using assms(1-3) by (simp_all add: unique_names_def purge_dirs distinct_names_filter)
  have rd: "readable_folder ?r ''posts''" "readable_folder ?r ''comments''" "readable_folder ?r ''likes''"
    using assms(4-6) by (simp_all add: readable_folder_def purge_dirs readable_filter)
  have "cleanup ?r now = (Inr (expired_count ?r (now - TTL_MS)), purge ?r (now - TTL_MS))"
    using u rd by (rule cleanup_readable)
  then have second: "cleanup ?r now = (Inr 0, ?r)"
    by (simp add: expired_count_purge purge_idem)
  from first second count left show ?thesis by simp
qed

text \<open>The example repository holds three expired objects, one in each directory.\<close>

theorem sweep_deletes_expired_then_nothing_witness:
  "unique_names demo_repo ''posts'' \<and> unique_names demo_repo ''comments'' \<and>
   unique_names demo_repo ''likes'' \<and> readable_folder demo_repo ''posts'' \<and>
   readable_folder demo_repo ''comments'' \<and> readable_folder demo_repo ''likes'' \<and>
   expired_count demo_repo (demo_now - TTL_MS) = 3 \<and>
   cleanup demo_repo demo_now = (Inr 3, purge demo_repo (demo_now - TTL_MS)) \<and>
   cleanup (purge demo_repo (demo_now - TTL_MS)) demo_now = (Inr 0, purge demo_repo (demo_now - TTL_MS)) \<and>
   stored_docs (dirs (purge demo_repo (demo_now - TTL_MS)) (folder_path ''posts'')) =
     unexpired_docs demo_repo ''posts'' (demo_now - TTL_MS) \<and>
   map doc_id (unexpired_docs demo_repo ''posts'' (demo_now - TTL_MS)) = [Str ''p2'', Str ''p3'', Str ''p1'']"
proof -
  have k: "map doc_id (unexpired_docs demo_repo ''posts'' (demo_now - TTL_MS)) =
             [Str ''p2'', Str ''p3'', Str ''p1'']"
    by (simp add: unexpired_docs_def demo_defs folder_path_def BASE_PATH_def
        skipped_def endsWith_def lt_cutoff_def getTime_def TTL_MS_def)
  have u: "unique_names demo_repo ''posts''" "unique_names demo_repo ''comments''"
    "unique_names demo_repo ''likes''"
    by (simp_all add: unique_names_def demo_defs folder_path_def BASE_PATH_def)
  have rd: "readable_folder demo_repo ''posts''" "readable_folder demo_repo ''comments''"
    "readable_folder demo_repo ''likes''"
    by (simp_all add: readable_folder_def demo_defs folder_path_def BASE_PATH_def
        skipped_def endsWith_def)
  have n: "expired_count demo_repo (demo_now - TTL_MS) = 3"
    by (simp add: expired_count_def doomed_def demo_defs folder_path_def BASE_PATH_def
        skipped_def endsWith_def lt_cutoff_def getTime_def TTL_MS_def)
  show ?thesis
    using sweep_deletes_expired_then_nothing [OF u rd, of demo_now] u rd n k by simp
qed

subsection \<open>Likes are not doubled\<close>

text \<open>
  Claim C5. If the likes directory can be read and holds a like of post \<open>P\<close> by user \<open>U\<close>
  that is visible at \<open>now\<close>, then liking \<open>P\<close> as \<open>U\<close> answers with the duplicate marker
  and leaves the repository as it was; in particular the count of likes of \<open>P\<close> is the
  same after as before, for any cutoff.
\<close>

theorem second_like_is_duplicate:
  assumes "unique_names r ''likes''" and "readable_folder r ''likes''"
    and "truthy P" and "truthy U"
    and "\<exists>d \<in> set (likes_of r P (now - TTL_MS)). user d = U"
  shows "createLike r uid now stamp P U = (Inr Duplicate, r) \<and>
         countBy (snd (createLike r uid now stamp P U)) ''likes'' postId P c =
           countBy r ''likes'' postId P c"
proof -
  let ?existing = "js_sort oldest_first (likes_of r P (now - TTL_MS))"
  have l: "listBy r ''likes'' postId P (now - TTL_MS) = Inr ?existing"
    using assms(2) by (simp add: listBy_folder [OF assms(1)] likes_of_def)
  have "\<exists>x. x \<in> set ?existing \<and> user x = U"
    using assms(5) by (auto simp: set_js_sort)
  then have "find (\<lambda>x. user x = U) ?existing \<noteq> None"
    by (simp add: find_None_iff)
  then obtain dup where "find (\<lambda>x. user x = U) ?existing = Some dup"
    by auto
  then have "createLike r uid now stamp P U = (Inr Duplicate, r)"
    using assms(3,4) l by (simp add: createLike_def Let_def)
  then show ?thesis by simp
qed

text \<open>In the example, \<open>bob\<close> has liked \<open>p1\<close> within the window.\<close>

theorem second_like_is_duplicate_witness:
  "unique_names demo_repo ''likes'' \<and> readable_folder demo_repo ''likes'' \<and>
   truthy (Str ''p1'') \<and> truthy (Str ''bob'') \<and>
   (\<exists>d \<in> set (likes_of demo_repo (Str ''p1'') (demo_now - TTL_MS)). user d = Str ''bob'') \<and>
   createLike demo_repo ''l9'' demo_now demo_now (Str ''p1'') (Str ''bob'') = (Inr Duplicate, demo_repo) \<and>
   countBy (snd (createLike demo_repo ''l9'' demo_now demo_now (Str ''p1'') (Str ''bob'')))
      ''likes'' postId (Str ''p1'') (demo_now - TTL_MS) =
     countBy demo_repo ''likes'' postId (Str ''p1'') (demo_now - TTL_MS)"
proof -
  have h1: "unique_names demo_repo ''likes''"
    by (simp add: unique_names_def demo_defs folder_path_def BASE_PATH_def)
  have h2: "readable_folder demo_repo ''likes''"
    by (simp add: readable_folder_def demo_defs folder_path_def BASE_PATH_def)
  have h3: "truthy (Str ''p1'')" and h4: "truthy (Str ''bob'')"
    by (simp_all add: truthy_def)
  have h5: "\<exists>d \<in> set (likes_of demo_repo (Str ''p1'') (demo_now - TTL_MS)). user d = Str ''bob''"
    by (simp add: likes_of_def demo_defs folder_path_def BASE_PATH_def skipped_def endsWith_def
        ge_cutoff_def getTime_def TTL_MS_def)
  show ?thesis
    using second_like_is_duplicate [OF h1 h2 h3 h4 h5, of "''l9''" demo_now "demo_now - TTL_MS"]
      h1 h2 h3 h4 h5
    by simp
qed

lemma find_absent_append:
  "find Q es = None \<Longrightarrow> Q e \<Longrightarrow> find Q (es @ [e]) = Some e"
  by (induction es) (auto split: if_splits)

lemma find_replaced:
  "find (\<lambda>x. name x = n) es \<noteq> None \<Longrightarrow> name e = n
     \<Longrightarrow> find (\<lambda>x. name x = n) (map (\<lambda>x. if name x = n then e else x) es) = Some e"
  by (induction es) auto

lemma lookup_write_file:
  "lookup (write_file r dir n c) dir n = Some \<lparr>name = n, type = ''file'', sha = next_sha r, content = c\<rparr>"
  by (cases "find (\<lambda>e. name e = n) (dirs r dir)")
     (simp_all add: write_file_def lookup_def Let_def find_absent_append find_replaced)

lemma ghGet_write_file: "ghGet (write_file r dir n c) dir n = Some (next_sha r, c)"
  by (simp add: ghGet_def lookup_write_file)

lemma ghPut_cases:
  "ghPut others r dir n c =
     (if current_token (others r) dir n = current_token r dir n
      then (Inr (), write_file (others r) dir n c)
      else (Inl (GitHubPutError 409), others r))"
proof -
  have "(case ghGet r dir n of None \<Rightarrow> None | Some f \<Rightarrow> Some (fst f)) = current_token r dir n"
    by (simp add: ghGet_def current_token_def split: option.splits)
  then show ?thesis
    by (auto simp: ghPut_def Let_def backend_put_def)
qed

subsection \<open>Writing a file\<close>

text \<open>
  Claim C7. \<^verbatim>\<open>ghPut\<close> reads the version token of the file (none when there is no file)
  and writes with that token. If the token of the file at the time of the write is not
  the one read, because another client wrote in between, the call throws the error of
  the rejected write (status 409) and the repository is as the other client left it:
  nothing is written and there is no second attempt. If the token is unchanged, the
  write goes through and the file then holds the new content.
\<close>

theorem put_conflict_is_surfaced_without_retry:
  "(current_token (others r) dir n \<noteq> current_token r dir n \<longrightarrow>
      ghPut others r dir n c = (Inl (GitHubPutError 409), others r)) \<and>
   (current_token (others r) dir n = current_token r dir n \<longrightarrow>
      ghPut others r dir n c = (Inr (), write_file (others r) dir n c) \<and>
      ghGet (write_file (others r) dir n c) dir n = Some (next_sha (others r), c))"
  by (simp add: ghPut_cases ghGet_write_file)

text \<open>
  A rival that rewrites \<open>l1.json\<close> between the read and the write makes the write of
  \<open>l1.json\<close> fail; the write of a new file, alone, succeeds.
\<close>

theorem put_conflict_is_surfaced_without_retry_witness:
  "current_token (rival demo_repo) ''data/likes'' ''l1.json'' \<noteq> current_token demo_repo ''data/likes'' ''l1.json'' \<and>
   ghPut rival demo_repo ''data/likes'' ''l1.json'' Malformed = (Inl (GitHubPutError 409), rival demo_repo) \<and>
   current_token demo_repo ''data/likes'' ''l9.json'' = None \<and>
   ghPut (\<lambda>x. x) demo_repo ''data/likes'' ''l9.json'' Malformed =
     (Inr (), write_file demo_repo ''data/likes'' ''l9.json'' Malformed) \<and>
   ghGet (write_file demo_repo ''data/likes'' ''l9.json'' Malformed) ''data/likes'' ''l9.json'' =
     Some (15, Malformed)"
proof -
  have h1: "current_token (rival demo_repo) ''data/likes'' ''l1.json'' \<noteq>
            current_token demo_repo ''data/likes'' ''l1.json''"
    by (simp add: rival_def current_token_def lookup_def write_file_def Let_def demo_defs)
  have h2: "current_token demo_repo ''data/likes'' ''l9.json'' = None"
    by (simp add: current_token_def lookup_def demo_defs)
  have s: "next_sha demo_repo = 15"
    by (simp add: demo_defs)
  show ?thesis
    using put_conflict_is_surfaced_without_retry [of rival demo_repo "''data/likes''" "''l1.json''" Malformed]
      put_conflict_is_surfaced_without_retry [of "\<lambda>x. x" demo_repo "''data/likes''" "''l9.json''" Malformed]
      h1 h2 s
    by simp
qed

lemma ghPut_alone: "ghPut (\<lambda>x. x) r dir n c = (Inr (), write_file r dir n c)"
  by (simp add: ghPut_cases)

lemma createPost_invalid:
  "\<not> truthy a \<or> \<not> truthy t
     \<Longrightarrow> createPost r uid stamp a t i = (Inl (Status400 ''author and text required''), r)"
  by (auto simp: createPost_def)

lemma createPost_valid:
  "truthy a \<Longrightarrow> truthy t \<Longrightarrow>
     createPost r uid stamp a t i =
       (Inr \<lparr>doc_id = Str uid, author = a, doc_text = t,
             imageUrl = (if truthy i then i else Null),
             postId = Undefined, user = Undefined, createdAt = Some stamp\<rparr>,
        write_file r (folder_path ''posts'') (uid @ ''.json'')
          (Json \<lparr>doc_id = Str uid, author = a, doc_text = t,
                 imageUrl = (if truthy i then i else Null),
                 postId = Undefined, user = Undefined, createdAt = Some stamp\<rparr>))"
  by (simp add: createPost_def Let_def ghPut_alone JSON_stringify_def)

lemma createComment_invalid:
  "\<not> truthy P \<or> \<not> truthy U \<or> \<not> truthy t
     \<Longrightarrow> createComment r uid stamp P U t = (Inl (Status400 ''postId, user, text required''), r)"
  by (auto simp: createComment_def)

lemma createComment_valid:
  "truthy P \<Longrightarrow> truthy U \<Longrightarrow> truthy t \<Longrightarrow>
     createComment r uid stamp P U t =
       (Inr \<lparr>doc_id = Str uid, author = Undefined, doc_text = t, imageUrl = Undefined,
             postId = P, user = U, createdAt = Some stamp\<rparr>,
        write_file r (folder_path ''comments'') (uid @ ''.json'')
          (Json \<lparr>doc_id = Str uid, author = Undefined, doc_text = t, imageUrl = Undefined,
                 postId = P, user = U, createdAt = Some stamp\<rparr>))"
  by (simp add: createComment_def Let_def ghPut_alone JSON_stringify_def)

lemma createLike_invalid:
  "\<not> truthy P \<or> \<not> truthy U
     \<Longrightarrow> createLike r uid now stamp P U = (Inl (Status400 ''postId and user required''), r)"
  by (auto simp: createLike_def)

lemma createLike_failed_scan:
  "truthy P \<Longrightarrow> truthy U \<Longrightarrow> listBy r ''likes'' postId P (now - TTL_MS) = Inl e
     \<Longrightarrow> createLike r uid now stamp P U = (Inl (Status500 e), r)"
  by (simp add: createLike_def Let_def)

lemma createLike_duplicate:
  "truthy P \<Longrightarrow> truthy U \<Longrightarrow> listBy r ''likes'' postId P (now - TTL_MS) = Inr existing
     \<Longrightarrow> \<exists>x \<in> set existing. user x = U
     \<Longrightarrow> createLike r uid now stamp P U = (Inr Duplicate, r)"
proof -
  assume a: "truthy P" "truthy U" "listBy r ''likes'' postId P (now - TTL_MS) = Inr existing"
    and "\<exists>x \<in> set existing. user x = U"
  then have "find (\<lambda>x. user x = U) existing \<noteq> None"
    by (simp add: find_None_iff) blast
  then obtain dup where "find (\<lambda>x. user x = U) existing = Some dup"
    by auto
  then show ?thesis
    using a by (simp add: createLike_def Let_def)
qed

lemma createLike_new:
  "truthy P \<Longrightarrow> truthy U \<Longrightarrow> listBy r ''likes'' postId P (now - TTL_MS) = Inr existing
     \<Longrightarrow> \<forall>x \<in> set existing. user x \<noteq> U
     \<Longrightarrow> createLike r uid now stamp P U =
       (Inr (Created \<lparr>doc_id = Str uid, author = Undefined, doc_text = Undefined, imageUrl = Undefined,
                      postId = P, user = U, createdAt = Some stamp\<rparr>),
        write_file r (folder_path ''likes'') (uid @ ''.json'')
          (Json \<lparr>doc_id = Str uid, author = Undefined, doc_text = Undefined, imageUrl = Undefined,
                 postId = P, user = U, createdAt = Some stamp\<rparr>))"
proof -
  assume a: "truthy P" "truthy U" "listBy r ''likes'' postId P (now - TTL_MS) = Inr existing"
    and "\<forall>x \<in> set existing. user x \<noteq> U"
  then have "find (\<lambda>x. user x = U) existing = None"
    by (simp add: find_None_iff)
  then show ?thesis
    using a by (simp add: createLike_def Let_def ghPut_alone JSON_stringify_def)
qed

subsection \<open>Validation\<close>

text \<open>
  A like with both fields present is not always stored: in the example \<open>bob\<close> has already
  liked \<open>p1\<close>, the route answers with the duplicate marker, and no file is written.
\<close>

theorem valid_like_of_a_liked_post_writes_nothing:
  "truthy (Str ''p1'') \<and> truthy (Str ''bob'') \<and>
   createLike demo_repo ''l9'' demo_now demo_now (Str ''p1'') (Str ''bob'') = (Inr Duplicate, demo_repo) \<and>
   ghGet demo_repo (folder_path ''likes'') (''l9'' @ ''.json'') = None"
  by (simp add: createLike_def truthy_def demo_defs code_defs)

text \<open>
  Claim C8, as the program has it. Each of the three routes answers with status 400,
  leaving the repository as it was, exactly when one of its required fields is missing
  or empty. Otherwise a post or a comment is written to its file. A like with both
  fields present is written when the scan of the likes succeeds and finds no visible
  like of that post by that user; when the scan finds one, the answer is the duplicate
  marker and nothing is written.
\<close>

theorem create_rejects_exactly_missing_fields:
  "(validation_error (fst (createPost r uid stamp a t i)) \<longleftrightarrow> \<not> truthy a \<or> \<not> truthy t) \<and>
   (\<not> truthy a \<or> \<not> truthy t \<longrightarrow> snd (createPost r uid stamp a t i) = r) \<and>
   (truthy a \<and> truthy t \<longrightarrow>
      (\<exists>p. fst (createPost r uid stamp a t i) = Inr p \<and>
           ghGet (snd (createPost r uid stamp a t i)) (folder_path ''posts'') (uid @ ''.json'')
             = Some (next_sha r, Json p))) \<and>
   (validation_error (fst (createComment r uid stamp P U t)) \<longleftrightarrow> \<not> truthy P \<or> \<not> truthy U \<or> \<not> truthy t) \<and>
   (\<not> truthy P \<or> \<not> truthy U \<or> \<not> truthy t \<longrightarrow> snd (createComment r uid stamp P U t) = r) \<and>
   (truthy P \<and> truthy U \<and> truthy t \<longrightarrow>
      (\<exists>c. fst (createComment r uid stamp P U t) = Inr c \<and>
           ghGet (snd (createComment r uid stamp P U t)) (folder_path ''comments'') (uid @ ''.json'')
             = Some (next_sha r, Json c))) \<and>
   (validation_error (fst (createLike r uid now stamp P U)) \<longleftrightarrow> \<not> truthy P \<or> \<not> truthy U) \<and>
   (\<not> truthy P \<or> \<not> truthy U \<longrightarrow> snd (createLike r uid now stamp P U) = r) \<and>
   (truthy P \<and> truthy U \<and> listBy r ''likes'' postId P (now - TTL_MS) = Inr existing \<and>
    (\<forall>x \<in> set existing. user x \<noteq> U) \<longrightarrow>
      (\<exists>l. fst (createLike r uid now stamp P U) = Inr (Created l) \<and>
           ghGet (snd (createLike r uid now stamp P U)) (folder_path ''likes'') (uid @ ''.json'')
             = Some (next_sha r, Json l))) \<and>
   (truthy P \<and> truthy U \<and> listBy r ''likes'' postId P (now - TTL_MS) = Inr existing \<and>
    (\<exists>x \<in> set existing. user x = U) \<longrightarrow>
      createLike r uid now stamp P U = (Inr Duplicate, r))"
proof -
  have p1: "validation_error (fst (createPost r uid stamp a t i)) \<longleftrightarrow> \<not> truthy a \<or> \<not> truthy t"
    by (cases "truthy a \<and> truthy t")
       (auto simp: createPost_valid createPost_invalid validation_error_def)
  have p2: "\<not> truthy a \<or> \<not> truthy t \<longrightarrow> snd (createPost r uid stamp a t i) = r"
    by (auto simp: createPost_invalid)
  have p3: "truthy a \<and> truthy t \<longrightarrow>
      (\<exists>p. fst (createPost r uid stamp a t i) = Inr p \<and>
           ghGet (snd (createPost r uid stamp a t i)) (folder_path ''posts'') (uid @ ''.json'')
             = Some (next_sha r, Json p))"
    by (simp add: createPost_valid ghGet_write_file)
  have c1: "validation_error (fst (createComment r uid stamp P U t)) \<longleftrightarrow>
      \<not> truthy P \<or> \<not> truthy U \<or> \<not> truthy t"
    by (cases "truthy P \<and> truthy U \<and> truthy t")
       (auto simp: createComment_valid createComment_invalid validation_error_def)
  have c2: "\<not> truthy P \<or> \<not> truthy U \<or> \<not> truthy t \<longrightarrow> snd (createComment r uid stamp P U t) = r"
    by (auto simp: createComment_invalid)
  have c3: "truthy P \<and> truthy U \<and> truthy t \<longrightarrow>
      (\<exists>c. fst (createComment r uid stamp P U t) = Inr c \<and>
           ghGet (snd (createComment r uid stamp P U t)) (folder_path ''comments'') (uid @ ''.json'')
             = Some (next_sha r, Json c))"
    by (simp add: createComment_valid ghGet_write_file)
  have l1: "validation_error (fst (createLike r uid now stamp P U)) \<longleftrightarrow> \<not> truthy P \<or> \<not> truthy U"
  proof (cases "truthy P \<and> truthy U")
    case False
    then show ?thesis by (auto simp: createLike_invalid validation_error_def)
  next
    case True
    show ?thesis
    proof (cases "listBy r ''likes'' postId P (now - TTL_MS)")
      case (Inl e)
      then show ?thesis using True by (simp add: createLike_failed_scan validation_error_def)
    next
      case (Inr existing)
      show ?thesis
      proof (cases "\<exists>x \<in> set existing. user x = U")
        case dup: True
        have "createLike r uid now stamp P U = (Inr Duplicate, r)"
          using True Inr dup by (intro createLike_duplicate) simp_all
        then show ?thesis using True by (simp add: validation_error_def)
      next
        case False
        then have "\<forall>x \<in> set existing. user x \<noteq> U" by simp
        with True Inr show ?thesis by (simp add: createLike_new validation_error_def)
      qed
    qed
  qed
  have l2: "\<not> truthy P \<or> \<not> truthy U \<longrightarrow> snd (createLike r uid now stamp P U) = r"
    by (auto simp: createLike_invalid)
  have l3: "truthy P \<and> truthy U \<and> listBy r ''likes'' postId P (now - TTL_MS) = Inr existing \<and>
    (\<forall>x \<in> set existing. user x \<noteq> U) \<longrightarrow>
      (\<exists>l. fst (createLike r uid now stamp P U) = Inr (Created l) \<and>
           ghGet (snd (createLike r uid now stamp P U)) (folder_path ''likes'') (uid @ ''.json'')
             = Some (next_sha r, Json l))"
    by (simp add: createLike_new ghGet_write_file)
  have l4: "truthy P \<and> truthy U \<and> listBy r ''likes'' postId P (now - TTL_MS) = Inr existing \<and>
    (\<exists>x \<in> set existing. user x = U) \<longrightarrow>
      createLike r uid now stamp P U = (Inr Duplicate, r)"
    using createLike_duplicate by blast
  from p1 p2 p3 c1 c2 c3 l1 l2 l3 l4 show ?thesis by blast
qed

text \<open>
  Two requests on the example repository: one with an empty text, with \<open>bob\<close> liking
  \<open>p2\<close> for the first time; one with every field present, with \<open>bob\<close> liking \<open>p1\<close> again.
\<close>

theorem create_rejects_exactly_missing_fields_witness:
  "truthy (Str ''alice'') \<and> \<not> truthy (Str '''') \<and> truthy (Str ''p2'') \<and> truthy (Str ''bob'') \<and>
   truthy (Str ''hi'') \<and> truthy (Str ''p1'') \<and>
   listBy demo_repo ''likes'' postId (Str ''p2'') (demo_now - TTL_MS) = Inr [] \<and>
   listBy demo_repo ''likes'' postId (Str ''p1'') (demo_now - TTL_MS) =
     Inr [a_like ''l1'' ''p1'' ''bob'' 60000000, a_like ''l2'' ''p1'' ''carol'' 61000000] \<and>
   validation_error (fst (createPost demo_repo ''n1'' demo_now (Str ''alice'') (Str '''') Undefined)) \<and>
   snd (createPost demo_repo ''n1'' demo_now (Str ''alice'') (Str '''') Undefined) = demo_repo \<and>
   validation_error (fst (createComment demo_repo ''n1'' demo_now (Str ''p2'') (Str ''bob'') (Str ''''))) \<and>
   snd (createComment demo_repo ''n1'' demo_now (Str ''p2'') (Str ''bob'') (Str '''')) = demo_repo \<and>
   \<not> validation_error (fst (createLike demo_repo ''n1'' demo_now demo_now (Str ''p2'') (Str ''bob''))) \<and>
   (\<exists>l. fst (createLike demo_repo ''n1'' demo_now demo_now (Str ''p2'') (Str ''bob'')) = Inr (Created l) \<and>
        ghGet (snd (createLike demo_repo ''n1'' demo_now demo_now (Str ''p2'') (Str ''bob'')))
          (folder_path ''likes'') (''n1'' @ ''.json'') = Some (next_sha demo_repo, Json l)) \<and>
   \<not> validation_error (fst (createPost demo_repo ''n2'' demo_now (Str ''alice'') (Str ''hi'') Undefined)) \<and>
   (\<exists>p. fst (createPost demo_repo ''n2'' demo_now (Str ''alice'') (Str ''hi'') Undefined) = Inr p \<and>
        ghGet (snd (createPost demo_repo ''n2'' demo_now (Str ''alice'') (Str ''hi'') Undefined))
          (folder_path ''posts'') (''n2'' @ ''.json'') = Some (next_sha demo_repo, Json p)) \<and>
   (\<exists>c. fst (createComment demo_repo ''n2'' demo_now (Str ''p1'') (Str ''bob'') (Str ''hi'')) = Inr c \<and>
        ghGet (snd (createComment demo_repo ''n2'' demo_now (Str ''p1'') (Str ''bob'') (Str ''hi'')))
          (folder_path ''comments'') (''n2'' @ ''.json'') = Some (next_sha demo_repo, Json c)) \<and>
   createLike demo_repo ''n2'' demo_now demo_now (Str ''p1'') (Str ''bob'') = (Inr Duplicate, demo_repo)"
proof -
  have h: "truthy (Str ''alice'')" "\<not> truthy (Str '''')" "truthy (Str ''p2'')" "truthy (Str ''bob'')"
    "truthy (Str ''hi'')" "truthy (Str ''p1'')"
    by (simp_all add: truthy_def)
  have s2: "listBy demo_repo ''likes'' postId (Str ''p2'') (demo_now - TTL_MS) = Inr []"
    by (simp add: demo_defs code_defs)
  have s1: "listBy demo_repo ''likes'' postId (Str ''p1'') (demo_now - TTL_MS) =
     Inr [a_like ''l1'' ''p1'' ''bob'' 60000000, a_like ''l2'' ''p1'' ''carol'' 61000000]"
    by (simp add: demo_defs code_defs)
  have e2: "\<forall>x \<in> set ([] :: doc list). user x \<noteq> Str ''bob''"
    by simp
  have e1: "\<exists>x \<in> set [a_like ''l1'' ''p1'' ''bob'' 60000000, a_like ''l2'' ''p1'' ''carol'' 61000000].
              user x = Str ''bob''"
    by (simp add: a_like_def)
  have first: "validation_error (fst (createPost demo_repo ''n1'' demo_now (Str ''alice'') (Str '''') Undefined)) \<and>
     snd (createPost demo_repo ''n1'' demo_now (Str ''alice'') (Str '''') Undefined) = demo_repo \<and>
     validation_error (fst (createComment demo_repo ''n1'' demo_now (Str ''p2'') (Str ''bob'') (Str ''''))) \<and>
     snd (createComment demo_repo ''n1'' demo_now (Str ''p2'') (Str ''bob'') (Str '''')) = demo_repo \<and>
     \<not> validation_error (fst (createLike demo_repo ''n1'' demo_now demo_now (Str ''p2'') (Str ''bob''))) \<and>
     (\<exists>l. fst (createLike demo_repo ''n1'' demo_now demo_now (Str ''p2'') (Str ''bob'')) = Inr (Created l) \<and>
        ghGet (snd (createLike demo_repo ''n1'' demo_now demo_now (Str ''p2'') (Str ''bob'')))
          (folder_path ''likes'') (''n1'' @ ''.json'') = Some (next_sha demo_repo, Json l))"
    using create_rejects_exactly_missing_fields
      [where r = demo_repo and uid = "''n1''" and stamp = demo_now and a = "Str ''alice''"
         and t = "Str ''''" and i = Undefined and P = "Str ''p2''" and U = "Str ''bob''"
         and now = demo_now and existing = "[]"]
      h s2 e2
    by simp
  have second: "\<not> validation_error (fst (createPost demo_repo ''n2'' demo_now (Str ''alice'') (Str ''hi'') Undefined)) \<and>
     (\<exists>p. fst (createPost demo_repo ''n2'' demo_now (Str ''alice'') (Str ''hi'') Undefined) = Inr p \<and>
        ghGet (snd (createPost demo_repo ''n2'' demo_now (Str ''alice'') (Str ''hi'') Undefined))
          (folder_path ''posts'') (''n2'' @ ''.json'') = Some (next_sha demo_repo, Json p)) \<and>
     (\<exists>c. fst (createComment demo_repo ''n2'' demo_now (Str ''p1'') (Str ''bob'') (Str ''hi'')) = Inr c \<and>
        ghGet (snd (createComment demo_repo ''n2'' demo_now (Str ''p1'') (Str ''bob'') (Str ''hi'')))
          (folder_path ''comments'') (''n2'' @ ''.json'') = Some (next_sha demo_repo, Json c)) \<and>
     createLike demo_repo ''n2'' demo_now demo_now (Str ''p1'') (Str ''bob'') = (Inr Duplicate, demo_repo)"
    using create_rejects_exactly_missing_fields
      [where r = demo_repo and uid = "''n2''" and stamp = demo_now and a = "Str ''alice''"
         and t = "Str ''hi''" and i = Undefined and P = "Str ''p1''" and U = "Str ''bob''"
         and now = demo_now
         and existing = "[a_like ''l1'' ''p1'' ''bob'' 60000000, a_like ''l2'' ''p1'' ''carol'' 61000000]"]
      h s1 e1
    by (simp add: a_like_def)
  from h s2 s1 first second show ?thesis by simp
qed

lemma endsWith_json [simp]: "endsWith (uid @ ''.json'') ''.json''"
  by (simp add: endsWith_def)

lemma stored_docs_member:
  "e \<in> set es \<Longrightarrow> \<not> skipped e \<Longrightarrow> content e = Json d \<Longrightarrow> d \<in> set (stored_docs es)"
  by (induction es) (auto split: content.splits)

lemma written_entry_listed:
  "\<lparr>name = n, type = ''file'', sha = next_sha r, content = c\<rparr> \<in> set (dirs (write_file r dir n c) dir)"
  using lookup_write_file [of r dir n c] by (auto simp: lookup_def find_Some_iff in_set_conv_nth)

lemma written_doc_stored:
  "d \<in> set (stored_docs (dirs (write_file r dir (uid @ ''.json'') (Json d)) dir))"
  by (rule stored_docs_member [OF written_entry_listed]) (simp_all add: skipped_def)

lemma names_after_replace:
  "name e = n \<Longrightarrow> map (name \<circ> (\<lambda>x. if name x = n then e else x)) es = map name es"
  by (induction es) auto

lemma find_None_names: "find (\<lambda>e. name e = n) es = None \<Longrightarrow> n \<notin> name ` set es"
  by (auto simp: find_None_iff)

lemma unique_names_write_file:
  "unique_names r folder \<Longrightarrow> unique_names (write_file r (folder_path folder) n c) folder"
  by (cases "find (\<lambda>e. name e = n) (dirs r (folder_path folder))")
     (auto simp: unique_names_def write_file_def Let_def lookup_def names_after_replace
        dest: find_None_names)

lemma readable_folder_write_file:
  "readable_folder r folder \<Longrightarrow> readable_folder (write_file r (folder_path folder) n (Json d)) folder"
  by (auto simp: readable_folder_def readable_def write_file_def Let_def split: if_splits)

lemma listBy_after_write:
  assumes "unique_names r folder" and "readable_folder r folder"
    and "key d = v" and "ge_cutoff d c"
  shows "\<exists>ds. listBy (write_file r (folder_path folder) (uid @ ''.json'') (Json d)) folder key v c = Inr ds
          \<and> d \<in> set ds"
proof -
  let ?r = "write_file r (folder_path folder) (uid @ ''.json'') (Json d)"
  have u: "unique_names ?r folder"
    using assms(1) by (rule unique_names_write_file)
  have rd: "readable_folder ?r folder"
    using assms(2) by (rule readable_folder_write_file)
  have "d \<in> set (filter (\<lambda>x. key x = v \<and> ge_cutoff x c) (stored_docs (dirs ?r (folder_path folder))))"
    using assms(3,4) by (simp add: written_doc_stored)
  then show ?thesis
    using rd by (simp add: listBy_folder [OF u] set_js_sort)
qed

lemma feed_loop_after_write:
  assumes "unique_names r ''posts''" and "readable_folder r ''posts''" and "ge_cutoff d c"
  shows "\<exists>ps. feed_loop (write_file r (folder_path ''posts'') (uid @ ''.json'') (Json d))
                 (folder_path ''posts'') c []
                 (ghListDir (write_file r (folder_path ''posts'') (uid @ ''.json'') (Json d)) (folder_path ''posts''))
               = Inr ps \<and> d \<in> set ps"
proof -
  let ?r = "write_file r (folder_path ''posts'') (uid @ ''.json'') (Json d)"
  have u: "unique_names ?r ''posts''"
    using assms(1) by (rule unique_names_write_file)
  have rd: "readable_folder ?r ''posts''"
    using assms(2) by (rule readable_folder_write_file)
  have "d \<in> set (visible_posts ?r c)"
    using assms(3) by (simp add: visible_posts_def written_doc_stored)
  then show ?thesis
    using rd by (simp add: feed_loop_folder [OF u])
qed

subsection \<open>Reading back what was created\<close>

text \<open>
  A post created with the empty string as image URL is stored with no image URL:
  \<^verbatim>\<open>imageUrl || null\<close> replaces the empty string.
\<close>

theorem empty_image_url_reads_back_as_null:
  "truthy (Str ''alice'') \<and> truthy (Str ''hi'') \<and>
   ghGet (snd (createPost empty_repo ''p9'' 5 (Str ''alice'') (Str ''hi'') (Str '''')))
     (folder_path ''posts'') (''p9'' @ ''.json'') =
     Some (0, Json \<lparr>doc_id = Str ''p9'', author = Str ''alice'', doc_text = Str ''hi'',
                    imageUrl = Null, postId = Undefined, user = Undefined, createdAt = Some 5\<rparr>) \<and>
   Null \<noteq> Str ''''"
  by (simp add: createPost_def truthy_def empty_repo_def ghPut_def backend_put_def current_token_def
      write_file_def Let_def code_defs)

lemma dirs_write_file_other:
  "dir' \<noteq> dir \<Longrightarrow> dirs (write_file r dir n c) dir' = dirs r dir'"
  by (simp add: write_file_def Let_def)

lemma ge_cutoff_stamp: "createdAt d = Some stamp \<Longrightarrow> ge_cutoff d c \<longleftrightarrow> c \<le> stamp"
  by (simp add: ge_cutoff_def getTime_def)

lemma feed_after_write:
  assumes "unique_names r ''posts''" and "unique_names r ''likes''" and "unique_names r ''comments''"
    and "readable_folder r ''posts''" and "readable_folder r ''likes''" and "readable_folder r ''comments''"
    and "ge_cutoff d (now - TTL_MS)"
  shows "\<exists>out. feed (write_file r (folder_path ''posts'') (uid @ ''.json'') (Json d)) now = Inr out
           \<and> d \<in> set (map post out)"
proof -
  let ?r = "write_file r (folder_path ''posts'') (uid @ ''.json'') (Json d)"
  let ?c = "now - TTL_MS"
  have u: "unique_names ?r ''posts''" "unique_names ?r ''likes''" "unique_names ?r ''comments''"
    using assms(1-3) by (simp_all add: unique_names_write_file) (simp_all add: unique_names_def dirs_write_file_other)
  have rd: "readable_folder ?r ''posts''" "readable_folder ?r ''likes''" "readable_folder ?r ''comments''"
    using assms(4-6) by (simp_all add: readable_folder_write_file)
      (simp_all add: readable_folder_def dirs_write_file_other)
  have v: "d \<in> set (visible_posts ?r ?c)"
    using assms(7) by (simp add: visible_posts_def written_doc_stored)
  then have ne: "visible_posts ?r ?c \<noteq> []"
    by auto
  have f: "feed ?r now = Inr (map (with_attachments ?r ?c) (js_sort newest_first (visible_posts ?r ?c)))"
    using rd ne by (simp add: feed_folders [OF u])
  have "map post (map (with_attachments ?r ?c) ps) = ps" for ps
    by (induction ps) (simp_all add: with_attachments_def)
  then have "d \<in> set (map post (map (with_attachments ?r ?c) (js_sort newest_first (visible_posts ?r ?c))))"
    using v by (simp only: set_js_sort)
  with f show ?thesis by blast
qed

text \<open>
  Claim C9, as the program has it. A created post, comment or like is answered to the
  caller and is what \<^verbatim>\<open>ghGet\<close> then reads from its file. Its identifier and creation
  instant are those the server drew, and its other fields are the fields of the
  request, except that an image URL that is empty or missing is stored as null. When
  the directories can be read and the object is within the window, the listing
  operations return it as well: the feed returns the post, \<^verbatim>\<open>listBy\<close> the comment and
  the like.
\<close>

theorem created_document_reads_back:
  "(truthy a \<and> truthy t \<longrightarrow>
      (\<exists>p. fst (createPost r uid stamp a t i) = Inr p \<and>
           ghGet (snd (createPost r uid stamp a t i)) (folder_path ''posts'') (uid @ ''.json'')
             = Some (next_sha r, Json p) \<and>
           doc_id p = Str uid \<and> createdAt p = Some stamp \<and> author p = a \<and> doc_text p = t \<and>
           imageUrl p = (if truthy i then i else Null) \<and>
           (unique_names r ''posts'' \<and> unique_names r ''likes'' \<and> unique_names r ''comments'' \<and>
            readable_folder r ''posts'' \<and> readable_folder r ''likes'' \<and> readable_folder r ''comments'' \<and>
            later - TTL_MS \<le> stamp \<longrightarrow>
              (\<exists>out. feed (snd (createPost r uid stamp a t i)) later = Inr out \<and> p \<in> set (map post out))))) \<and>
   (truthy P \<and> truthy U \<and> truthy t \<longrightarrow>
      (\<exists>c. fst (createComment r uid stamp P U t) = Inr c \<and>
           ghGet (snd (createComment r uid stamp P U t)) (folder_path ''comments'') (uid @ ''.json'')
             = Some (next_sha r, Json c) \<and>
           doc_id c = Str uid \<and> createdAt c = Some stamp \<and> postId c = P \<and> user c = U \<and> doc_text c = t \<and>
           (unique_names r ''comments'' \<and> readable_folder r ''comments'' \<and> cutoff \<le> stamp \<longrightarrow>
              (\<exists>cs. listBy (snd (createComment r uid stamp P U t)) ''comments'' postId P cutoff = Inr cs \<and>
                    c \<in> set cs)))) \<and>
   (truthy P \<and> truthy U \<and> unique_names r ''likes'' \<and> readable_folder r ''likes'' \<and>
    (\<forall>x \<in> set (likes_of r P (now - TTL_MS)). user x \<noteq> U) \<longrightarrow>
      (\<exists>l. fst (createLike r uid now stamp P U) = Inr (Created l) \<and>
           ghGet (snd (createLike r uid now stamp P U)) (folder_path ''likes'') (uid @ ''.json'')
             = Some (next_sha r, Json l) \<and>
           doc_id l = Str uid \<and> createdAt l = Some stamp \<and> postId l = P \<and> user l = U \<and>
           (cutoff \<le> stamp \<longrightarrow>
              (\<exists>ls. listBy (snd (createLike r uid now stamp P U)) ''likes'' postId P cutoff = Inr ls \<and>
                    l \<in> set ls))))"
proof -
  have post: "truthy a \<and> truthy t \<longrightarrow>
      (\<exists>p. fst (createPost r uid stamp a t i) = Inr p \<and>
           ghGet (snd (createPost r uid stamp a t i)) (folder_path ''posts'') (uid @ ''.json'')
             = Some (next_sha r, Json p) \<and>
           doc_id p = Str uid \<and> createdAt p = Some stamp \<and> author p = a \<and> doc_text p = t \<and>
           imageUrl p = (if truthy i then i else Null) \<and>
           (unique_names r ''posts'' \<and> unique_names r ''likes'' \<and> unique_names r ''comments'' \<and>
            readable_folder r ''posts'' \<and> readable_folder r ''likes'' \<and> readable_folder r ''comments'' \<and>
            later - TTL_MS \<le> stamp \<longrightarrow>
              (\<exists>out. feed (snd (createPost r uid stamp a t i)) later = Inr out \<and> p \<in> set (map post out))))"
  proof
    assume v: "truthy a \<and> truthy t"
    let ?p = "\<lparr>doc_id = Str uid, author = a, doc_text = t, imageUrl = (if truthy i then i else Null),
               postId = Undefined, user = Undefined, createdAt = Some stamp\<rparr>"
    have c: "createPost r uid stamp a t i =
               (Inr ?p, write_file r (folder_path ''posts'') (uid @ ''.json'') (Json ?p))"
      using v by (simp add: createPost_valid)
    have g: "ge_cutoff ?p (later - TTL_MS) \<longleftrightarrow> later - TTL_MS \<le> stamp"
      by (rule ge_cutoff_stamp) simp
    show "\<exists>p. fst (createPost r uid stamp a t i) = Inr p \<and>
           ghGet (snd (createPost r uid stamp a t i)) (folder_path ''posts'') (uid @ ''.json'')
             = Some (next_sha r, Json p) \<and>
           doc_id p = Str uid \<and> createdAt p = Some stamp \<and> author p = a \<and> doc_text p = t \<and>
           imageUrl p = (if truthy i then i else Null) \<and>
           (unique_names r ''posts'' \<and> unique_names r ''likes'' \<and> unique_names r ''comments'' \<and>
            readable_folder r ''posts'' \<and> readable_folder r ''likes'' \<and> readable_folder r ''comments'' \<and>
            later - TTL_MS \<le> stamp \<longrightarrow>
              (\<exists>out. feed (snd (createPost r uid stamp a t i)) later = Inr out \<and> p \<in> set (map post out)))"
      apply (rule exI [of _ ?p])
      apply (simp only: c fst_conv snd_conv ghGet_write_file)
      using g feed_after_write [of r ?p later uid] apply simp
      done
  qed
  have comment: "truthy P \<and> truthy U \<and> truthy t \<longrightarrow>
      (\<exists>c. fst (createComment r uid stamp P U t) = Inr c \<and>
           ghGet (snd (createComment r uid stamp P U t)) (folder_path ''comments'') (uid @ ''.json'')
             = Some (next_sha r, Json c) \<and>
           doc_id c = Str uid \<and> createdAt c = Some stamp \<and> postId c = P \<and> user c = U \<and> doc_text c = t \<and>
           (unique_names r ''comments'' \<and> readable_folder r ''comments'' \<and> cutoff \<le> stamp \<longrightarrow>
              (\<exists>cs. listBy (snd (createComment r uid stamp P U t)) ''comments'' postId P cutoff = Inr cs \<and>
                    c \<in> set cs)))"
  proof
    assume v: "truthy P \<and> truthy U \<and> truthy t"
    let ?c = "\<lparr>doc_id = Str uid, author = Undefined, doc_text = t, imageUrl = Undefined,
               postId = P, user = U, createdAt = Some stamp\<rparr>"
    have c: "createComment r uid stamp P U t =
               (Inr ?c, write_file r (folder_path ''comments'') (uid @ ''.json'') (Json ?c))"
      using v by (simp add: createComment_valid)
    have g: "ge_cutoff ?c cutoff \<longleftrightarrow> cutoff \<le> stamp"
      by (rule ge_cutoff_stamp) simp
    show "\<exists>c. fst (createComment r uid stamp P U t) = Inr c \<and>
           ghGet (snd (createComment r uid stamp P U t)) (folder_path ''comments'') (uid @ ''.json'')
             = Some (next_sha r, Json c) \<and>
           doc_id c = Str uid \<and> createdAt c = Some stamp \<and> postId c = P \<and> user c = U \<and> doc_text c = t \<and>
           (unique_names r ''comments'' \<and> readable_folder r ''comments'' \<and> cutoff \<le> stamp \<longrightarrow>
              (\<exists>cs. listBy (snd (createComment r uid stamp P U t)) ''comments'' postId P cutoff = Inr cs \<and>
                    c \<in> set cs))"
      apply (rule exI [of _ ?c])
      apply (simp only: c fst_conv snd_conv ghGet_write_file)
      using g listBy_after_write [of r "''comments''" postId ?c P cutoff uid] apply simp
      done
  qed
  have like: "truthy P \<and> truthy U \<and> unique_names r ''likes'' \<and> readable_folder r ''likes'' \<and>
    (\<forall>x \<in> set (likes_of r P (now - TTL_MS)). user x \<noteq> U) \<longrightarrow>
      (\<exists>l. fst (createLike r uid now stamp P U) = Inr (Created l) \<and>
           ghGet (snd (createLike r uid now stamp P U)) (folder_path ''likes'') (uid @ ''.json'')
             = Some (next_sha r, Json l) \<and>
           doc_id l = Str uid \<and> createdAt l = Some stamp \<and> postId l = P \<and> user l = U \<and>
           (cutoff \<le> stamp \<longrightarrow>
              (\<exists>ls. listBy (snd (createLike r uid now stamp P U)) ''likes'' postId P cutoff = Inr ls \<and>
                    l \<in> set ls)))"
  proof
    assume v: "truthy P \<and> truthy U \<and> unique_names r ''likes'' \<and> readable_folder r ''likes'' \<and>
      (\<forall>x \<in> set (likes_of r P (now - TTL_MS)). user x \<noteq> U)"
    let ?l = "\<lparr>doc_id = Str uid, author = Undefined, doc_text = Undefined, imageUrl = Undefined,
               postId = P, user = U, createdAt = Some stamp\<rparr>"
    let ?existing = "js_sort oldest_first (likes_of r P (now - TTL_MS))"
    from v have u: "unique_names r ''likes''" and rd: "readable_folder r ''likes''"
      by simp_all
    have s: "listBy r ''likes'' postId P (now - TTL_MS) = Inr ?existing"
      using rd by (simp add: listBy_folder [OF u] likes_of_def)
    have n: "\<forall>x \<in> set ?existing. user x \<noteq> U"
      using v by (simp add: set_js_sort)
    have c: "createLike r uid now stamp P U =
               (Inr (Created ?l), write_file r (folder_path ''likes'') (uid @ ''.json'') (Json ?l))"
      using v s n by (intro createLike_new) simp_all
    have g: "ge_cutoff ?l cutoff \<longleftrightarrow> cutoff \<le> stamp"
      by (rule ge_cutoff_stamp) simp
    show "\<exists>l. fst (createLike r uid now stamp P U) = Inr (Created l) \<and>
           ghGet (snd (createLike r uid now stamp P U)) (folder_path ''likes'') (uid @ ''.json'')
             = Some (next_sha r, Json l) \<and>
           doc_id l = Str uid \<and> createdAt l = Some stamp \<and> postId l = P \<and> user l = U \<and>
           (cutoff \<le> stamp \<longrightarrow>
              (\<exists>ls. listBy (snd (createLike r uid now stamp P U)) ''likes'' postId P cutoff = Inr ls \<and>
                    l \<in> set ls))"
      apply (rule exI [of _ ?l])
      apply (simp only: c fst_conv snd_conv ghGet_write_file)
      using g u rd listBy_after_write [of r "''likes''" postId ?l P cutoff uid] apply simp
      done
  qed
  from post comment like show ?thesis by blast
qed

text \<open>A post, a comment and a like created in the example repository.\<close>

theorem created_document_reads_back_witness:
  "truthy (Str ''alice'') \<and> truthy (Str ''hi'') \<and> truthy (Str ''p2'') \<and> truthy (Str ''dave'') \<and>
   unique_names demo_repo ''posts'' \<and> unique_names demo_repo ''likes'' \<and>
   unique_names demo_repo ''comments'' \<and> readable_folder demo_repo ''posts'' \<and>
   readable_folder demo_repo ''likes'' \<and> readable_folder demo_repo ''comments'' \<and>
   demo_now - TTL_MS \<le> 99000000 \<and>
   likes_of demo_repo (Str ''p2'') (demo_now - TTL_MS) = [] \<and>
   (\<exists>p. fst (createPost demo_repo ''n1'' 99000000 (Str ''alice'') (Str ''hi'') (Str ''u'')) = Inr p \<and>
        author p = Str ''alice'' \<and> doc_text p = Str ''hi'' \<and> imageUrl p = Str ''u'' \<and>
        (\<exists>out. feed (snd (createPost demo_repo ''n1'' 99000000 (Str ''alice'') (Str ''hi'') (Str ''u'')))
                  demo_now = Inr out \<and> p \<in> set (map post out))) \<and>
   (\<exists>c. fst (createComment demo_repo ''n1'' 99000000 (Str ''p2'') (Str ''dave'') (Str ''hi'')) = Inr c \<and>
        postId c = Str ''p2'' \<and> user c = Str ''dave'' \<and> doc_text c = Str ''hi'' \<and>
        (\<exists>cs. listBy (snd (createComment demo_repo ''n1'' 99000000 (Str ''p2'') (Str ''dave'') (Str ''hi'')))
                 ''comments'' postId (Str ''p2'') (demo_now - TTL_MS) = Inr cs \<and> c \<in> set cs)) \<and>
   (\<exists>l. fst (createLike demo_repo ''n1'' demo_now 99000000 (Str ''p2'') (Str ''dave'')) = Inr (Created l) \<and>
        postId l = Str ''p2'' \<and> user l = Str ''dave'' \<and>
        (\<exists>ls. listBy (snd (createLike demo_repo ''n1'' demo_now 99000000 (Str ''p2'') (Str ''dave'')))
                 ''likes'' postId (Str ''p2'') (demo_now - TTL_MS) = Inr ls \<and> l \<in> set ls))"
proof -
  have t: "truthy (Str ''alice'')" "truthy (Str ''hi'')" "truthy (Str ''p2'')" "truthy (Str ''dave'')"
    "truthy (Str ''u'')"
    by (simp_all add: truthy_def)
  have w: "demo_now - TTL_MS \<le> 99000000"
    by (simp add: demo_now_def TTL_MS_def)
  have e: "likes_of demo_repo (Str ''p2'') (demo_now - TTL_MS) = []"
    by (simp add: likes_of_def folder_defs demo_defs skipped_def endsWith_def)
  then have n: "\<forall>x \<in> set (likes_of demo_repo (Str ''p2'') (demo_now - TTL_MS)). user x \<noteq> Str ''dave''"
    by simp
  show ?thesis
    using created_document_reads_back
      [where r = demo_repo and uid = "''n1''" and stamp = 99000000 and a = "Str ''alice''"
         and t = "Str ''hi''" and i = "Str ''u''" and P = "Str ''p2''" and U = "Str ''dave''"
         and now = demo_now and later = demo_now and cutoff = "demo_now - TTL_MS"]
      t w e n demo_unique demo_readable
    by simp blast
qed

lemma stored_docs_only_json: "stored_docs (filter (\<lambda>e. \<not> skipped e) es) = stored_docs es"
  by (induction es) (auto split: content.splits)

lemma readable_only_json: "readable (filter (\<lambda>e. \<not> skipped e) es) = readable es"
  by (auto simp: readable_def)

lemma dirs_only_json: "dirs (only_json r) d = filter (\<lambda>e. \<not> skipped e) (dirs r d)"
  by (simp add: only_json_def)

lemma unique_names_only_json: "unique_names r folder \<Longrightarrow> unique_names (only_json r) folder"
  by (simp add: unique_names_def dirs_only_json distinct_names_filter)

lemma readable_folder_only_json: "readable_folder (only_json r) folder = readable_folder r folder"
  by (simp add: readable_folder_def dirs_only_json readable_only_json)

lemma listBy_only_json:
  assumes "unique_names r folder"
  shows "listBy (only_json r) folder key v c = listBy r folder key v c"
  by (simp add: listBy_folder [OF assms] listBy_folder [OF unique_names_only_json [OF assms]]
      readable_folder_only_json dirs_only_json stored_docs_only_json)

lemma feed_only_json:
  assumes "unique_names r ''posts''" and "unique_names r ''likes''" and "unique_names r ''comments''"
  shows "feed (only_json r) now = feed r now"
proof -
  have v: "visible_posts (only_json r) c = visible_posts r c" for c
    by (simp add: visible_posts_def dirs_only_json stored_docs_only_json)
  have w: "with_attachments (only_json r) c = with_attachments r c" for c
    by (rule ext)
       (simp add: with_attachments_def likes_of_def comments_of_def dirs_only_json stored_docs_only_json)
  show ?thesis
    by (simp add: feed_folders [OF assms]
        feed_folders [OF assms [THEN unique_names_only_json]] readable_folder_only_json v w)
qed

lemma sweep_entries_keeps_skipped:
  "filter skipped (snd (sweep_entries c k es)) = filter skipped es"
  by (induction es arbitrary: k) (auto split: content.splits)

lemma sweep_entries_only_json:
  "sweep_entries c k (filter (\<lambda>e. \<not> skipped e) es) =
     (fst (sweep_entries c k es), filter (\<lambda>e. \<not> skipped e) (snd (sweep_entries c k es)))"
  by (induction es arbitrary: k) (auto split: content.splits)

lemma sweep_entries_subset: "set (snd (sweep_entries c k es)) \<subseteq> set es"
  by (induction es arbitrary: k) (auto split: content.splits)

lemma sweep_entries_distinct:
  "distinct (map name es) \<Longrightarrow> distinct (map name (snd (sweep_entries c k es)))"
proof (induction es arbitrary: k)
  case Nil
  show ?case by simp
next
  case (Cons e es)
  have "name e \<notin> name ` set (snd (sweep_entries c k es))"
    using Cons.prems sweep_entries_subset [of c k es] by auto
  then show ?case
    using Cons by (auto split: content.splits)
qed

lemma cleanup_folders_sweep:
  "\<forall>f \<in> set fs. unique_names r f \<Longrightarrow> cleanup_folders r c k fs = sweep_folders c k r fs"
proof (induction fs arbitrary: r k)
  case Nil
  show ?case by simp
next
  case (Cons f fs)
  let ?s = "sweep_entries c k (dirs r (folder_path f))"
  let ?r = "r\<lparr>dirs := (dirs r)(folder_path f := snd ?s)\<rparr>"
  have u: "unique_names r f"
    using Cons.prems by simp
  have l: "cleanup_loop r (folder_path f) c k (ghListDir r (folder_path f)) = (fst ?s, ?r)"
    using u by (rule cleanup_loop_folder)
  have "\<forall>g \<in> set fs. unique_names ?r g"
    using Cons.prems by (auto simp: unique_names_def sweep_entries_distinct)
  then have ih: "cleanup_folders ?r c d fs = sweep_folders c d ?r fs" for d
    by (rule Cons.IH)
  show ?case
    by (cases "fst ?s") (simp_all only: cleanup_folders.simps sweep_folders.simps Let_def l
        prod.case sum.case ih)
qed

lemma only_json_update:
  "only_json (r\<lparr>dirs := (dirs r)(d := es)\<rparr>) =
     (only_json r)\<lparr>dirs := (dirs (only_json r))(d := filter (\<lambda>e. \<not> skipped e) es)\<rparr>"
proof (rule repo.equality)
  show "dirs (only_json (r\<lparr>dirs := (dirs r)(d := es)\<rparr>)) =
        dirs ((only_json r)\<lparr>dirs := (dirs (only_json r))(d := filter (\<lambda>e. \<not> skipped e) es)\<rparr>)"
    by (rule ext) (simp add: only_json_def)
qed (simp_all add: only_json_def)

lemma sweep_folders_only_json:
  "sweep_folders c k (only_json r) fs =
     (fst (sweep_folders c k r fs), only_json (snd (sweep_folders c k r fs)))"
proof (induction fs arbitrary: r k)
  case Nil
  show ?case by simp
next
  case (Cons f fs)
  let ?s = "sweep_entries c k (dirs r (folder_path f))"
  let ?r = "r\<lparr>dirs := (dirs r)(folder_path f := snd ?s)\<rparr>"
  have s: "sweep_entries c k (dirs (only_json r) (folder_path f)) =
             (fst ?s, filter (\<lambda>e. \<not> skipped e) (snd ?s))"
    by (simp add: dirs_only_json sweep_entries_only_json)
  have upd: "(only_json r)\<lparr>dirs := (dirs (only_json r))(folder_path f := filter (\<lambda>e. \<not> skipped e) (snd ?s))\<rparr>
             = only_json ?r"
    by (rule only_json_update [symmetric])
  show ?case
    by (cases "fst ?s") (simp_all only: sweep_folders.simps s fst_conv snd_conv upd sum.case Cons.IH)
qed

lemma sweep_folders_keeps_skipped:
  "filter skipped (dirs (snd (sweep_folders c k r fs)) d) = filter skipped (dirs r d)"
proof (induction fs arbitrary: r k)
  case Nil
  show ?case by simp
next
  case (Cons f fs)
  let ?s = "sweep_entries c k (dirs r (folder_path f))"
  let ?r = "r\<lparr>dirs := (dirs r)(folder_path f := snd ?s)\<rparr>"
  have one: "filter skipped (dirs ?r d) = filter skipped (dirs r d)"
    by (simp add: sweep_entries_keeps_skipped)
  show ?case
  proof (cases "fst ?s")
    case (Inl e)
    then show ?thesis using one by simp
  next
    case (Inr j)
    have "filter skipped (dirs (snd (sweep_folders c j ?r fs)) d) = filter skipped (dirs ?r d)"
      by (rule Cons.IH)
    then show ?thesis using Inr one by simp
  qed
qed

lemma cleanup_sweep:
  assumes "unique_names r ''posts''" and "unique_names r ''comments''" and "unique_names r ''likes''"
  shows "cleanup r now =
           (case sweep_folders (now - TTL_MS) 0 r [''posts'', ''comments'', ''likes''] of
              (Inl e, r') \<Rightarrow> (Inl (Status500 e), r')
            | (Inr deleted, r') \<Rightarrow> (Inr deleted, r'))"
proof -
  have "\<forall>f \<in> set [''posts'', ''comments'', ''likes'']. unique_names r f"
    using assms by simp
  then have "cleanup_folders r (now - TTL_MS) 0 [''posts'', ''comments'', ''likes''] =
             sweep_folders (now - TTL_MS) 0 r [''posts'', ''comments'', ''likes'']"
    by (rule cleanup_folders_sweep)
  then show ?thesis
    by (simp only: cleanup_def Let_def)
qed

subsection \<open>Entries that are not JSON files\<close>

text \<open>
  Claim C10. Entries whose type is not \<^verbatim>\<open>file\<close> or whose name does not end in \<^verbatim>\<open>.json\<close>
  play no part: \<^verbatim>\<open>listBy\<close>, \<^verbatim>\<open>countBy\<close>, the feed and the answer of the cleanup are the
  same as on the repository without these entries, whatever their content, so they are
  neither read, parsed nor counted; and after the cleanup every directory still holds
  the skipped entries it held before.
\<close>

theorem skipped_entries_are_ignored:
  assumes "unique_names r ''posts''" and "unique_names r ''comments''" and "unique_names r ''likes''"
    and "unique_names r folder"
  shows "listBy (only_json r) folder key v c = listBy r folder key v c \<and>
         countBy (only_json r) folder key v c = countBy r folder key v c \<and>
         feed (only_json r) now = feed r now \<and>
         fst (cleanup (only_json r) now) = fst (cleanup r now) \<and>
         filter skipped (dirs (snd (cleanup r now)) d) = filter skipped (dirs r d)"
proof -
  let ?fs = "[''posts'', ''comments'', ''likes'']"
  let ?s = "sweep_folders (now - TTL_MS) 0 r ?fs"
  have l: "listBy (only_json r) folder key v c = listBy r folder key v c"
    using assms(4) by (rule listBy_only_json)
  have n: "countBy (only_json r) folder key v c = countBy r folder key v c"
    by (simp add: countBy_def l)
  have f: "feed (only_json r) now = feed r now"
    using assms(1,3,2) by (rule feed_only_json)
  have c1: "cleanup r now =
      (case ?s of (Inl e, r') \<Rightarrow> (Inl (Status500 e), r') | (Inr deleted, r') \<Rightarrow> (Inr deleted, r'))"
    using assms(1-3) by (rule cleanup_sweep)
  have c2: "cleanup (only_json r) now =
      (case sweep_folders (now - TTL_MS) 0 (only_json r) ?fs of
         (Inl e, r') \<Rightarrow> (Inl (Status500 e), r') | (Inr deleted, r') \<Rightarrow> (Inr deleted, r'))"
    using assms(1-3) [THEN unique_names_only_json] by (rule cleanup_sweep)
  have o: "sweep_folders (now - TTL_MS) 0 (only_json r) ?fs = (fst ?s, only_json (snd ?s))"
    by (rule sweep_folders_only_json)
  have k: "filter skipped (dirs (snd ?s) d) = filter skipped (dirs r d)"
    by (rule sweep_folders_keeps_skipped)
  have r1: "fst (cleanup (only_json r) now) = fst (cleanup r now)"
    unfolding c1 c2 o by (cases ?s) (auto split: sum.splits)
  have r2: "filter skipped (dirs (snd (cleanup r now)) d) = filter skipped (dirs r d)"
    using k unfolding c1 by (cases ?s) (auto split: sum.splits)
  from l n f r1 r2 show ?thesis by simp
qed

text \<open>
  The posts directory of the example holds a directory \<open>drafts\<close> and a file
  \<open>README.md\<close> that is not JSON.
\<close>

theorem skipped_entries_are_ignored_witness:
  "unique_names demo_repo ''posts'' \<and> unique_names demo_repo ''comments'' \<and>
   unique_names demo_repo ''likes'' \<and>
   filter skipped (dirs demo_repo ''data/posts'') =
     [\<lparr>name = ''drafts'', type = ''dir'', sha = 3, content = Malformed\<rparr>,
      file_entry ''README.md'' 5 Malformed] \<and>
   listBy (only_json demo_repo) ''likes'' postId (Str ''p1'') (demo_now - TTL_MS) =
     listBy demo_repo ''likes'' postId (Str ''p1'') (demo_now - TTL_MS) \<and>
   countBy (only_json demo_repo) ''likes'' postId (Str ''p1'') (demo_now - TTL_MS) =
     countBy demo_repo ''likes'' postId (Str ''p1'') (demo_now - TTL_MS) \<and>
   feed (only_json demo_repo) demo_now = feed demo_repo demo_now \<and>
   fst (cleanup (only_json demo_repo) demo_now) = fst (cleanup demo_repo demo_now) \<and>
   filter skipped (dirs (snd (cleanup demo_repo demo_now)) ''data/posts'') =
     filter skipped (dirs demo_repo ''data/posts'')"
proof -
  have s: "filter skipped (dirs demo_repo ''data/posts'') =
     [\<lparr>name = ''drafts'', type = ''dir'', sha = 3, content = Malformed\<rparr>,
      file_entry ''README.md'' 5 Malformed]"
    by (simp add: demo_defs skipped_def endsWith_def)
  show ?thesis
    using skipped_entries_are_ignored [OF demo_unique demo_unique(3),
        of postId "Str ''p1''" "demo_now - TTL_MS" demo_now "''data/posts''"]
      demo_unique s
    by simp
qed

end
